theory Spec2Isabelle
  imports Main "HOL-Library.FSet" "HOL-Library.Sublist" "HOL-Library.Char_ord"
    "HOL-Library.List_Lexorder"
begin

section \<open>The world outside the repository\<close>

text \<open>
  The crawler talks to libraries and services that are not part of the repository:
  the HTTP session, the headless browser, BeautifulSoup, urllib, hashlib, the NLP
  models, the clock, and CPython's iteration order of a set.  They are collected in
  one record that every modelled function receives.  Nothing is assumed about its
  fields unless a theorem says so.

  The network is a state machine of its own.  Its states are numbered.  A request for
  a URL is answered in the state the world is in (\<open>session_get\<close> for the HTTP session,
  \<open>page_content\<close> for the browser), so that the same URL may fail now and succeed
  later, and it leaves the world in the state \<open>after_request\<close> gives.  The program
  cannot move the world except by making a request.
\<close>

datatype exn = RequestException | ClientError | IndexError | ValueError | OtherException

datatype outcome = Raises exn | Responds nat string

record env =
  md5_hexdigest :: "string \<Rightarrow> string"
  set_to_list :: "string fset \<Rightarrow> string list"
  session_get :: "nat \<Rightarrow> string \<Rightarrow> outcome"
  page_content :: "nat \<Rightarrow> string \<Rightarrow> outcome"
  after_request :: "nat \<Rightarrow> string \<Rightarrow> nat"
  find_all_a_href :: "string \<Rightarrow> string list"
  urljoin :: "string \<Rightarrow> string \<Rightarrow> string"
  extract_text :: "string \<Rightarrow> string"
  find_all_img_src :: "string \<Rightarrow> (string \<times> string) list"
  extract_metadata :: "string \<Rightarrow> (string \<times> string) list"
  extract_entities :: "string \<Rightarrow> (string \<times> string list) list"
  extract_keywords :: "string \<Rightarrow> string list"
  now_isoformat :: "nat \<Rightarrow> string"

section \<open>Python string and list primitives (ASCII text)\<close>

definition startswith :: "string \<Rightarrow> string \<Rightarrow> bool" where
  "startswith s p = prefix p s"

definition lower_char :: "char \<Rightarrow> char" where
  "lower_char c =
     (case map_of (zip ''ABCDEFGHIJKLMNOPQRSTUVWXYZ'' ''abcdefghijklmnopqrstuvwxyz'') c of
        Some l \<Rightarrow> l
      | None \<Rightarrow> c)"

definition lower :: "string \<Rightarrow> string" where
  "lower s = map lower_char s"

definition isspace :: "char \<Rightarrow> bool" where
  "isspace c = (let n = (of_char c :: nat) in (9 \<le> n \<and> n \<le> 13) \<or> (28 \<le> n \<and> n \<le> 32))"

text \<open>\<^verbatim>\<open>s.split()\<close>: the maximal runs of non-whitespace characters, in order.\<close>

fun split_from :: "string \<Rightarrow> string \<Rightarrow> string list" where
  "split_from [] w = (if w = [] then [] else [w])"
| "split_from (c # cs) w =
     (if isspace c then (if w = [] then split_from cs [] else w # split_from cs [])
      else split_from cs (w @ [c]))"

definition split :: "string \<Rightarrow> string list" where
  "split s = split_from s []"

fun join :: "string \<Rightarrow> string list \<Rightarrow> string" where
  "join sep [] = []"
| "join sep [x] = x"
| "join sep (x # y # ys) = x @ sep @ join sep (y # ys)"

text \<open>\<^verbatim>\<open>[text[i:i + n] for i in range(0, len(text), n)]\<close>, for a positive step.\<close>

function chunks :: "nat \<Rightarrow> 'a list \<Rightarrow> 'a list list" where
  "chunks n xs = (if n = 0 \<or> xs = [] then [] else take n xs # chunks n (drop n xs))"
  by pat_completeness auto
termination
  by (relation "measure (\<lambda>(n, xs). length xs)") auto

declare chunks.simps [simp del]

text \<open>\<^verbatim>\<open>xs[-m:]\<close> for \<open>m \<ge> 0\<close>: the last \<open>m\<close> items; all of them when \<open>m = 0\<close>,
  since \<open>-0\<close> is \<open>0\<close>.\<close>

definition last_items :: "nat \<Rightarrow> 'a list \<Rightarrow> 'a list" where
  "last_items m xs = (if m = 0 then xs else drop (length xs - m) xs)"

section \<open>Dedup engine: \<^verbatim>\<open>TextProcessor\<close> (src/utils/text\_processor.py)\<close>

record TextProcessor =
  content_hashes :: "string fset"
  max_hashes :: nat

definition TextProcessor_init :: TextProcessor where
  "TextProcessor_init = \<lparr>content_hashes = {||}, max_hashes = 10000\<rparr>"

text \<open>\<^verbatim>\<open>calculate_content_hash\<close>: every chunk of 100000 characters is lower-cased and
  its whitespace collapsed; the digest is fed the chunks in order.\<close>

definition normalize_chunk :: "string \<Rightarrow> string" where
  "normalize_chunk chunk = join '' '' (split (lower chunk))"

definition calculate_content_hash :: "env \<Rightarrow> string \<Rightarrow> string" where
  "calculate_content_hash e text =
     md5_hexdigest e (concat (map normalize_chunk (chunks 100000 text)))"

text \<open>\<^verbatim>\<open>is_duplicate\<close>: returns the answer and the processor with its updated ledger.\<close>

definition is_duplicate :: "env \<Rightarrow> TextProcessor \<Rightarrow> string \<Rightarrow> bool \<times> TextProcessor" where
  "is_duplicate e tp text =
     (let content_hash = calculate_content_hash e text;
          tp1 = (if fcard (content_hashes tp) \<ge> max_hashes tp
                 then tp\<lparr>content_hashes :=
                        fset_of_list (last_items (max_hashes tp) (set_to_list e (content_hashes tp)))\<rparr>
                 else tp)
      in if content_hash |\<in>| content_hashes tp1 then (True, tp1)
         else (False, tp1\<lparr>content_hashes := finsert content_hash (content_hashes tp1)\<rparr>))"

text \<open>\<^verbatim>\<open>list(a_set)\<close> lists every member once, in an order Python does not specify.\<close>

definition lists_set :: "env \<Rightarrow> string fset \<Rightarrow> bool" where
  "lists_set e S = (distinct (set_to_list e S) \<and> fset_of_list (set_to_list e S) = S)"


text \<open>A sequence of duplicate checks on one instance: the answers, and the final ledger.\<close>

fun check_all :: "env \<Rightarrow> TextProcessor \<Rightarrow> string list \<Rightarrow> bool list \<times> TextProcessor" where
  "check_all e tp [] = ([], tp)"
| "check_all e tp (t # ts) =
     (let (d, tp1) = is_duplicate e tp t; (ds, tp2) = check_all e tp1 ts in (d # ds, tp2))"

text \<open>\<^verbatim>\<open>process_text\<close>: \<open>None\<close> for a duplicate, else entities, keywords and the hash.\<close>

definition process_text ::
  "env \<Rightarrow> TextProcessor \<Rightarrow> string
     \<Rightarrow> ((string \<times> string list) list \<times> string list \<times> string) option \<times> TextProcessor" where
  "process_text e tp text =
     (let (dup, tp1) = is_duplicate e tp text
      in if dup then (None, tp1)
         else (Some (extract_entities e text, extract_keywords e text,
                     calculate_content_hash e text), tp1))"

section \<open>Retryable fetcher: \<^verbatim>\<open>get_page\<close> (base\_crawler.py, dynamic\_crawler.py)\<close>

datatype crawler_class = StaticCrawler | DynamicCrawler

record metrics =
  start_time :: string
  end_time :: "string option"
  total_pages :: nat
  successful_crawls :: nat
  failed_crawls :: nat

record crawler =
  cls :: crawler_class
  name :: string
  base_url :: string
  is_dynamic :: bool
  max_retries :: int
  page_limit :: int
  visited_urls :: "string fset"
  text_processor :: TextProcessor
  metrics :: metrics

record website_config =
  cfg_name :: "string option"
  cfg_url :: "string option"
  cfg_dynamic :: "bool option"
  cfg_page_limit :: "int option"

definition MAX_RETRIES :: int where
  "MAX_RETRIES = 1"

definition get_default :: "'a option \<Rightarrow> 'a \<Rightarrow> 'a" where
  "get_default v d = (case v of None \<Rightarrow> d | Some x \<Rightarrow> x)"

text \<open>\<^verbatim>\<open>StaticCrawler.__init__\<close> (after \<^verbatim>\<open>BaseCrawler.__init__\<close>); the class is the one
  the caller instantiates.\<close>

definition Crawler_init :: "env \<Rightarrow> crawler_class \<Rightarrow> website_config \<Rightarrow> crawler" where
  "Crawler_init e k cfg =
     \<lparr>cls = k,
      name = get_default (cfg_name cfg) [],
      base_url = get_default (cfg_url cfg) [],
      is_dynamic = get_default (cfg_dynamic cfg) False,
      max_retries = MAX_RETRIES,
      page_limit = get_default (cfg_page_limit cfg) 100,
      visited_urls = {||},
      text_processor = TextProcessor_init,
      metrics = \<lparr>start_time = now_isoformat e 0, end_time = None, total_pages = 0,
                  successful_crawls = 0, failed_crawls = 0\<rparr>\<rparr>"

text \<open>\<^verbatim>\<open>CrawlerFactory.create_crawler\<close>.\<close>

definition create_crawler :: "env \<Rightarrow> website_config \<Rightarrow> crawler" where
  "create_crawler e cfg =
     (if get_default (cfg_dynamic cfg) False then Crawler_init e DynamicCrawler cfg
      else Crawler_init e StaticCrawler cfg)"

definition respect_robots_txt :: "string \<Rightarrow> bool" where
  "respect_robots_txt url = True"

text \<open>
  One iteration of \<^verbatim>\<open>for attempt in range(self.max_retries)\<close> per list item.  Every
  attempt makes one request, in the state \<open>t\<close> of the world, and goes on in the state
  the world is in after it.  \<^verbatim>\<open>raise_for_status\<close> raises an \<^verbatim>\<open>HTTPError\<close>, which is a
  \<^verbatim>\<open>RequestException\<close>, for a status from 400 to 599.  The base class catches
  \<^verbatim>\<open>RequestException\<close> only; any other exception leaves the function.  The delays
  (\<^verbatim>\<open>time.sleep\<close>) and the user-agent rotation do not change any modelled value.
\<close>

fun base_attempts :: "env \<Rightarrow> string \<Rightarrow> nat list \<Rightarrow> nat \<Rightarrow> (exn + string option) \<times> nat" where
  "base_attempts e url [] t = (Inr None, t)"
| "base_attempts e url (attempt # rest) t =
     (case session_get e t url of
        Raises x \<Rightarrow>
          (if x = RequestException then base_attempts e url rest (after_request e t url)
           else (Inl x, after_request e t url))
      | Responds status text \<Rightarrow>
          (if 400 \<le> status \<and> status < 600 then base_attempts e url rest (after_request e t url)
           else (Inr (Some text), after_request e t url)))"

definition BaseCrawler_get_page ::
  "env \<Rightarrow> crawler \<Rightarrow> string \<Rightarrow> nat \<Rightarrow> (exn + string option) \<times> nat" where
  "BaseCrawler_get_page e c url t =
     (if \<not> respect_robots_txt url then (Inr None, t)
      else base_attempts e url [0..<nat (max_retries c)] t)"

text \<open>The dynamic crawler catches every \<^verbatim>\<open>Exception\<close> and does not look at the status.\<close>

fun dynamic_attempts :: "env \<Rightarrow> string \<Rightarrow> nat list \<Rightarrow> nat \<Rightarrow> (exn + string option) \<times> nat" where
  "dynamic_attempts e url [] t = (Inr None, t)"
| "dynamic_attempts e url (attempt # rest) t =
     (case page_content e t url of
        Raises x \<Rightarrow> dynamic_attempts e url rest (after_request e t url)
      | Responds status html \<Rightarrow> (Inr (Some html), after_request e t url))"

definition DynamicCrawler_get_page ::
  "env \<Rightarrow> crawler \<Rightarrow> string \<Rightarrow> nat \<Rightarrow> (exn + string option) \<times> nat" where
  "DynamicCrawler_get_page e c url t =
     (if \<not> respect_robots_txt url then (Inr None, t)
      else dynamic_attempts e url [0..<nat (max_retries c)] t)"

text \<open>\<^verbatim>\<open>self.get_page\<close>: the method of the crawler's class.\<close>

definition get_page :: "env \<Rightarrow> crawler \<Rightarrow> string \<Rightarrow> nat \<Rightarrow> (exn + string option) \<times> nat" where
  "get_page e c url t =
     (case cls c of
        StaticCrawler \<Rightarrow> BaseCrawler_get_page e c url t
      | DynamicCrawler \<Rightarrow> DynamicCrawler_get_page e c url t)"




text \<open>The state of the world after \<open>n\<close> requests for a URL, one after the other, from
  state \<open>w\<close>.\<close>

fun world_after :: "env \<Rightarrow> string \<Rightarrow> nat \<Rightarrow> nat \<Rightarrow> nat" where
  "world_after e url 0 w = w"
| "world_after e url (Suc n) w = world_after e url n (after_request e w url)"


section \<open>Crawl loop: \<^verbatim>\<open>StaticCrawler\<close> (static\_crawler.py)\<close>

record parsed_page =
  pp_text :: string
  pp_images :: "(string \<times> string) list"
  pp_metadata :: "(string \<times> string) list"
  pp_html :: string
  pp_entities :: "(string \<times> string list) list"
  pp_keywords :: "string list"
  pp_content_hash :: string

record page_data =
  pd_text :: string
  pd_images :: "(string \<times> string) list"
  pd_metadata :: "(string \<times> string) list"
  pd_html :: string
  pd_url :: string
  pd_hash :: string
  pd_crawler :: string
  pd_timestamp :: string
  pd_source_url :: string

record text_data =
  td_url :: string
  td_entities :: "(string \<times> string list) list"
  td_keywords :: "string list"
  td_content_hash :: string
  td_timestamp :: string

text \<open>\<^verbatim>\<open>extract_links\<close>: the loop over \<^verbatim>\<open>soup.find_all('a', href=True)\<close>.\<close>

fun links_from :: "env \<Rightarrow> string \<Rightarrow> string \<Rightarrow> string list \<Rightarrow> string list" where
  "links_from e self_base_url page_url [] = []"
| "links_from e self_base_url page_url (href # rest) =
     (if href = [] \<or> startswith href ''#'' \<or> startswith href ''javascript:''
      then links_from e self_base_url page_url rest
      else (let absolute_url = urljoin e page_url href
            in if startswith absolute_url self_base_url
               then absolute_url # links_from e self_base_url page_url rest
               else links_from e self_base_url page_url rest))"

text \<open>The second argument of \<^verbatim>\<open>extract_links\<close> and \<^verbatim>\<open>extract_images\<close> (\<^verbatim>\<open>base_url\<close> in
  the source) is the URL that relative references are resolved against.\<close>

definition extract_links :: "env \<Rightarrow> crawler \<Rightarrow> string \<Rightarrow> string \<Rightarrow> string list" where
  "extract_links e c html page_url =
     links_from e (base_url c) page_url (find_all_a_href e html)"

definition extract_images :: "env \<Rightarrow> string \<Rightarrow> string \<Rightarrow> (string \<times> string) list" where
  "extract_images e html page_url =
     map (\<lambda>(src, alt). (urljoin e page_url src, alt)) (find_all_img_src e html)"

text \<open>\<^verbatim>\<open>parse\<close>: \<open>None\<close> when the text processor reports a duplicate.\<close>

definition parse :: "env \<Rightarrow> crawler \<Rightarrow> string \<Rightarrow> parsed_page option \<times> crawler" where
  "parse e c html =
     (let text = extract_text e html;
          images = extract_images e html (base_url c);
          metadata = extract_metadata e html;
          (processed_text, tp) = process_text e (text_processor c) text;
          c1 = c\<lparr>text_processor := tp\<rparr>
      in case processed_text of
           None \<Rightarrow> (None, c1)
         | Some (entities, keywords, content_hash) \<Rightarrow>
             (Some \<lparr>pp_text = text, pp_images = images, pp_metadata = metadata, pp_html = html,
                    pp_entities = entities, pp_keywords = keywords,
                    pp_content_hash = content_hash\<rparr>, c1))"

text \<open>The \<^verbatim>\<open>for link in links\<close> loop at the end of an iteration.\<close>

fun enqueue_links :: "string fset \<Rightarrow> string list \<Rightarrow> string list \<Rightarrow> string list" where
  "enqueue_links visited to_visit [] = to_visit"
| "enqueue_links visited to_visit (link # links) =
     enqueue_links visited
       (if link |\<notin>| visited \<and> link \<notin> set to_visit then to_visit @ [link] else to_visit) links"

text \<open>
  The state of one run of \<^verbatim>\<open>text_data_generator\<close>: the crawler object, the variables of
  the enclosing \<^verbatim>\<open>_crawl\<close>, and three observations that the source does not store: the
  records yielded so far, the state of the world (\<open>clock\<close>), and the log of
  \<^verbatim>\<open>get_page\<close> calls (URL, and whether the call gave a non-empty page).
\<close>

record crawl_state =
  self :: crawler
  to_visit :: "string list"
  pages_processed :: nat
  crawled_data :: "page_data list"
  yielded :: "text_data list"
  clock :: nat
  fetch_log :: "(string \<times> bool) list"

definition crawl_start :: "crawler \<Rightarrow> nat \<Rightarrow> crawl_state" where
  "crawl_start c t =
     \<lparr>self = c, to_visit = [base_url c], pages_processed = 0, crawled_data = [],
      yielded = [], clock = t, fetch_log = []\<rparr>"

text \<open>The \<^verbatim>\<open>if not html: ... continue\<close> branch.\<close>

definition fetch_failed :: "crawl_state \<Rightarrow> string \<Rightarrow> nat \<Rightarrow> crawl_state" where
  "fetch_failed s url t = s\<lparr>clock := t, fetch_log := fetch_log s @ [(url, False)]\<rparr>"

text \<open>The iteration from \<^verbatim>\<open>self.visited_urls.add(url)\<close> to its end.  The generator is
  suspended at \<^verbatim>\<open>yield\<close> and resumed by its consumer; here the iteration runs through.\<close>

definition page_fetched :: "env \<Rightarrow> crawl_state \<Rightarrow> string \<Rightarrow> string \<Rightarrow> nat \<Rightarrow> crawl_state" where
  "page_fetched e s url html t =
     (let s1 = s\<lparr>clock := t, fetch_log := fetch_log s @ [(url, True)]\<rparr>;
          c1 = (self s1)\<lparr>visited_urls := finsert url (visited_urls (self s1))\<rparr>;
          (parsed, c2) = parse e c1 html;
          s2 = s1\<lparr>self := c2\<rparr>
      in case parsed of
           None \<Rightarrow> s2
         | Some p \<Rightarrow>
             (let timestamp = now_isoformat e (clock s2);
                  text_record = \<lparr>td_url = url, td_entities = pp_entities p,
                                 td_keywords = pp_keywords p,
                                 td_content_hash = pp_content_hash p,
                                 td_timestamp = timestamp\<rparr>;
                  page = \<lparr>pd_text = pp_text p, pd_images = pp_images p,
                          pd_metadata = pp_metadata p, pd_html = pp_html p, pd_url = url,
                          pd_hash = md5_hexdigest e url, pd_crawler = name c2,
                          pd_timestamp = timestamp, pd_source_url = base_url c2\<rparr>;
                  links = extract_links e c2 html url
              in s2\<lparr>yielded := yielded s2 @ [text_record],
                     crawled_data := crawled_data s2 @ [page],
                     pages_processed := pages_processed s2 + 1,
                     to_visit := enqueue_links (visited_urls c2) (to_visit s2) links\<rparr>))"

text \<open>The loop condition and one iteration of the \<^verbatim>\<open>while\<close> loop.  An iteration ends
  with an exception (\<open>Some\<close>) or normally.\<close>

definition loop_cond :: "crawl_state \<Rightarrow> bool" where
  "loop_cond s = (to_visit s \<noteq> [] \<and> int (fcard (visited_urls (self s))) < page_limit (self s))"

definition loop_body :: "env \<Rightarrow> crawl_state \<Rightarrow> exn option \<times> crawl_state" where
  "loop_body e s =
     (case to_visit s of
        [] \<Rightarrow> (Some IndexError, s)
      | url # rest \<Rightarrow>
          (let s1 = s\<lparr>to_visit := rest\<rparr>
           in if url |\<in>| visited_urls (self s1) then (None, s1)
              else (case get_page e (self s1) url (clock s1) of
                      (Inl x, t) \<Rightarrow> (Some x, fetch_failed s1 url t)
                    | (Inr None, t) \<Rightarrow> (None, fetch_failed s1 url t)
                    | (Inr (Some html), t) \<Rightarrow>
                        (if html = [] then (None, fetch_failed s1 url t)
                         else (None, page_fetched e s1 url html t)))))"

text \<open>The measure of the loop: the room left under the page limit, then the queue.\<close>

definition room :: "crawl_state \<Rightarrow> nat" where
  "room s = nat (page_limit (self s) - int (fcard (visited_urls (self s))))"

lemma enqueue_links_keeps: "set q \<subseteq> set (enqueue_links visited q links)"
proof (induction links arbitrary: q)
  case Nil
  show ?case by simp
next
  case (Cons l ls)
  let ?q = "if l |\<notin>| visited \<and> l \<notin> set q then q @ [l] else q"
  have "set q \<subseteq> set ?q" by auto
  also have "set ?q \<subseteq> set (enqueue_links visited ?q ls)" by (rule Cons.IH)
  finally show ?case by simp
qed

lemma parse_eq:
  "parse e c html =
     (case process_text e (text_processor c) (extract_text e html) of
        (None, tp) \<Rightarrow> (None, c\<lparr>text_processor := tp\<rparr>)
      | (Some (entities, keywords, content_hash), tp) \<Rightarrow>
          (Some \<lparr>pp_text = extract_text e html,
                 pp_images = extract_images e html (base_url c),
                 pp_metadata = extract_metadata e html, pp_html = html,
                 pp_entities = entities, pp_keywords = keywords,
                 pp_content_hash = content_hash\<rparr>, c\<lparr>text_processor := tp\<rparr>))"
  by (simp add: parse_def Let_def split: prod.splits option.splits)

lemma parse_keeps:
  "visited_urls (snd (parse e c html)) = visited_urls c
   \<and> page_limit (snd (parse e c html)) = page_limit c
   \<and> base_url (snd (parse e c html)) = base_url c
   \<and> metrics (snd (parse e c html)) = metrics c
   \<and> max_retries (snd (parse e c html)) = max_retries c
   \<and> cls (snd (parse e c html)) = cls c
   \<and> name (snd (parse e c html)) = name c"
  by (simp add: parse_eq split: prod.splits option.splits)

lemma page_fetched_eq:
  "page_fetched e s url html t =
     (let s1 = s\<lparr>clock := t, fetch_log := fetch_log s @ [(url, True)]\<rparr>;
          c1 = (self s)\<lparr>visited_urls := finsert url (visited_urls (self s))\<rparr>;
          c2 = snd (parse e c1 html);
          s2 = s1\<lparr>self := c2\<rparr>
      in case fst (parse e c1 html) of
           None \<Rightarrow> s2
         | Some p \<Rightarrow>
             s2\<lparr>yielded := yielded s @
                    [\<lparr>td_url = url, td_entities = pp_entities p, td_keywords = pp_keywords p,
                      td_content_hash = pp_content_hash p, td_timestamp = now_isoformat e t\<rparr>],
                 crawled_data := crawled_data s @
                    [\<lparr>pd_text = pp_text p, pd_images = pp_images p,
                      pd_metadata = pp_metadata p, pd_html = pp_html p, pd_url = url,
                      pd_hash = md5_hexdigest e url, pd_crawler = name c2,
                      pd_timestamp = now_isoformat e t, pd_source_url = base_url c2\<rparr>],
                 pages_processed := pages_processed s + 1,
                 to_visit := enqueue_links (visited_urls c2) (to_visit s)
                               (extract_links e c2 html url)\<rparr>)"
  by (simp add: page_fetched_def Let_def split: prod.splits option.splits)

lemma page_fetched_self:
  "visited_urls (self (page_fetched e s url html t)) = finsert url (visited_urls (self s))
   \<and> page_limit (self (page_fetched e s url html t)) = page_limit (self s)"
  by (simp add: page_fetched_eq Let_def parse_keeps split: option.splits)

lemma loop_body_decreases:
  assumes "loop_cond s" and "loop_body e s = (None, s')"
  shows "room s' < room s \<or> (room s' = room s \<and> length (to_visit s') < length (to_visit s))"
proof -
  obtain url rest where q: "to_visit s = url # rest"
    using assms(1) by (cases "to_visit s") (auto simp: loop_cond_def)
  have lim: "int (fcard (visited_urls (self s))) < page_limit (self s)"
    using assms(1) by (simp add: loop_cond_def)
  show ?thesis
  proof (cases "url |\<in>| visited_urls (self s)")
    case True
    then have "s' = s\<lparr>to_visit := rest\<rparr>"
      using assms(2) q by (simp add: loop_body_def Let_def)
    then show ?thesis using q by (simp add: room_def)
  next
    case False
    obtain r t where g: "get_page e (self s) url (clock s) = (r, t)"
      by (cases "get_page e (self s) url (clock s)")
    show ?thesis
    proof (cases "\<exists>html. r = Inr (Some html) \<and> html \<noteq> []")
      case True
      then obtain html where r: "r = Inr (Some html)" "html \<noteq> []" by blast
      have "s' = page_fetched e (s\<lparr>to_visit := rest\<rparr>) url html t"
        using assms(2) q False g r by (simp add: loop_body_def Let_def)
      then have "visited_urls (self s') = finsert url (visited_urls (self s))"
        and "page_limit (self s') = page_limit (self s)"
        using page_fetched_self[of e "s\<lparr>to_visit := rest\<rparr>" url html t] by simp_all
      then have "room s' < room s"
        using False lim by (simp add: room_def fcard_finsert_disjoint)
      then show ?thesis ..
    next
      case no: False
      have "s' = fetch_failed (s\<lparr>to_visit := rest\<rparr>) url t"
        using assms(2) q False g no
        by (cases r) (auto simp: loop_body_def Let_def split: option.splits if_splits)
      then show ?thesis using q by (simp add: room_def fetch_failed_def)
    qed
  qed
qed

text \<open>\<^verbatim>\<open>text_data_generator\<close>, run until the loop ends or an exception leaves it.\<close>

function text_data_generator :: "env \<Rightarrow> crawl_state \<Rightarrow> exn option \<times> crawl_state" where
  "text_data_generator e s =
     (if loop_cond s
      then (case loop_body e s of
              (Some x, s1) \<Rightarrow> (Some x, s1)
            | (None, s1) \<Rightarrow> text_data_generator e s1)
      else (None, s))"
  by pat_completeness auto
termination
proof (relation "measures [\<lambda>(e, s). room s, \<lambda>(e, s). length (to_visit s)]")
  show "wf (measures [\<lambda>(e, s). room s, \<lambda>(e, s). length (to_visit s)])" by simp
next
  fix e s x1 x2 y
  assume "loop_cond s" and "(x1, x2) = loop_body e s" and "x1 = None"
  then have "loop_body e s = (None, x2)" by simp
  from loop_body_decreases[OF \<open>loop_cond s\<close> this]
  show "((e, x2), (e, s)) \<in> measures [\<lambda>(e, s). room s, \<lambda>(e, s). length (to_visit s)]"
    by auto
qed

declare text_data_generator.simps [simp del]

text \<open>The states at the head of the loop, in order, ending with the state the run stops
  in.\<close>

function crawl_states :: "env \<Rightarrow> crawl_state \<Rightarrow> crawl_state list" where
  "crawl_states e s =
     (if loop_cond s
      then (case loop_body e s of
              (Some x, s1) \<Rightarrow> [s, s1]
            | (None, s1) \<Rightarrow> s # crawl_states e s1)
      else [s])"
  by pat_completeness auto
termination
proof (relation "measures [\<lambda>(e, s). room s, \<lambda>(e, s). length (to_visit s)]")
  show "wf (measures [\<lambda>(e, s). room s, \<lambda>(e, s). length (to_visit s)])" by simp
next
  fix e s x1 x2 y
  assume "loop_cond s" and "(x1, x2) = loop_body e s" and "x1 = None"
  then have "loop_body e s = (None, x2)" by simp
  from loop_body_decreases[OF \<open>loop_cond s\<close> this]
  show "((e, x2), (e, s)) \<in> measures [\<lambda>(e, s). room s, \<lambda>(e, s). length (to_visit s)]"
    by auto
qed

declare crawl_states.simps [simp del]


section \<open>The object store at its boundary\<close>

text \<open>
  The service behind \<^verbatim>\<open>boto3\<close> is not part of the repository.  It is modelled by the
  behaviour its interface documents: an object exists under a key once it has been put
  or once a multipart upload to that key has been completed; an open multipart upload
  holds its parts without making an object; completing needs at least one part and
  every listed part with its tag, in ascending order, and joins the parts; aborting
  drops the upload and its parts.  The tag of a part stands for its content.  Size
  limits are not modelled.  A request may fail: the store carries a schedule that says,
  for each coming request, whether it raises \<^verbatim>\<open>ClientError\<close> (with no effect); past the
  schedule no request is made to fail.  The store also logs the requests it receives.
\<close>

datatype s3_request =
    CreateMultipartUpload string
  | UploadPart string nat nat string
  | CompleteMultipartUpload string nat "(nat \<times> string) list"
  | AbortMultipartUpload string nat
  | PutObject string string
  | HeadObject string

record s3 =
  objects :: "string \<Rightarrow> string option"
  uploads :: "nat \<Rightarrow> (string \<times> (nat \<times> string) list) option"
  next_upload_id :: nat
  faults :: "bool list"
  requests :: "s3_request list"

definition s3_empty :: "bool list \<Rightarrow> s3" where
  "s3_empty fs = \<lparr>objects = (\<lambda>k. None), uploads = (\<lambda>u. None), next_upload_id = 0,
                   faults = fs, requests = []\<rparr>"

text \<open>Receiving a request: it is logged, and the schedule says whether it fails.\<close>

definition receive :: "s3_request \<Rightarrow> s3 \<Rightarrow> bool \<times> s3" where
  "receive r s =
     (case faults s of
        [] \<Rightarrow> (False, s\<lparr>requests := requests s @ [r]\<rparr>)
      | f # fs \<Rightarrow> (f, s\<lparr>requests := requests s @ [r], faults := fs\<rparr>))"

definition create_multipart_upload :: "string \<Rightarrow> s3 \<Rightarrow> (exn + nat) \<times> s3" where
  "create_multipart_upload key s =
     (let (fails, s1) = receive (CreateMultipartUpload key) s
      in if fails then (Inl ClientError, s1)
         else (Inr (next_upload_id s1),
               s1\<lparr>uploads := (uploads s1)(next_upload_id s1 \<mapsto> (key, [])),
                   next_upload_id := next_upload_id s1 + 1\<rparr>))"

definition upload_part :: "string \<Rightarrow> nat \<Rightarrow> nat \<Rightarrow> string \<Rightarrow> s3 \<Rightarrow> (exn + string) \<times> s3" where
  "upload_part key part_number upload_id body s =
     (let (fails, s1) = receive (UploadPart key part_number upload_id body) s
      in if fails then (Inl ClientError, s1)
         else (case uploads s1 upload_id of
                 None \<Rightarrow> (Inl ClientError, s1)
               | Some (k, stored) \<Rightarrow>
                   if k \<noteq> key then (Inl ClientError, s1)
                   else (Inr body,
                         s1\<lparr>uploads := (uploads s1)(upload_id \<mapsto> (k, (part_number, body) # stored))\<rparr>)))"

definition parts_acceptable :: "(nat \<times> string) list \<Rightarrow> (nat \<times> string) list \<Rightarrow> bool" where
  "parts_acceptable stored parts =
     (parts \<noteq> [] \<and> sorted_wrt (<) (map fst parts)
      \<and> list_all (\<lambda>(n, tag). map_of stored n = Some tag) parts)"

definition complete_multipart_upload ::
  "string \<Rightarrow> nat \<Rightarrow> (nat \<times> string) list \<Rightarrow> s3 \<Rightarrow> (exn + unit) \<times> s3" where
  "complete_multipart_upload key upload_id parts s =
     (let (fails, s1) = receive (CompleteMultipartUpload key upload_id parts) s
      in if fails then (Inl ClientError, s1)
         else (case uploads s1 upload_id of
                 None \<Rightarrow> (Inl ClientError, s1)
               | Some (k, stored) \<Rightarrow>
                   if k \<noteq> key \<or> \<not> parts_acceptable stored parts then (Inl ClientError, s1)
                   else (Inr (),
                         s1\<lparr>objects := (objects s1)(key \<mapsto> concat (map snd parts)),
                             uploads := (uploads s1)(upload_id := None)\<rparr>)))"

definition abort_multipart_upload :: "string \<Rightarrow> nat \<Rightarrow> s3 \<Rightarrow> (exn + unit) \<times> s3" where
  "abort_multipart_upload key upload_id s =
     (let (fails, s1) = receive (AbortMultipartUpload key upload_id) s
      in if fails then (Inl ClientError, s1)
         else (case uploads s1 upload_id of
                 None \<Rightarrow> (Inl ClientError, s1)
               | Some (k, stored) \<Rightarrow> (Inr (), s1\<lparr>uploads := (uploads s1)(upload_id := None)\<rparr>)))"

definition put_object :: "string \<Rightarrow> string \<Rightarrow> s3 \<Rightarrow> (exn + unit) \<times> s3" where
  "put_object key body s =
     (let (fails, s1) = receive (PutObject key body) s
      in if fails then (Inl ClientError, s1)
         else (Inr (), s1\<lparr>objects := (objects s1)(key \<mapsto> body)\<rparr>))"

text \<open>\<^verbatim>\<open>head_object\<close>: the answer is whether the key holds an object (a missing key is
  the 404 error of the service); a scheduled failure is any other error.\<close>

definition head_object :: "string \<Rightarrow> s3 \<Rightarrow> (exn + bool) \<times> s3" where
  "head_object key s =
     (let (fails, s1) = receive (HeadObject key) s
      in if fails then (Inl ClientError, s1) else (Inr (objects s1 key \<noteq> None), s1))"

section \<open>Streaming persistence: \<^verbatim>\<open>S3Storage\<close> (src/storage/s3\_storage.py)\<close>

text \<open>
  What the storage class takes from outside: gzip, the date and the time stamp used in
  keys and default file names.  How Python renders a value of some type (\<^verbatim>\<open>json.dumps\<close>,
  \<^verbatim>\<open>str\<close>, and the pandas writers) is a record of functions for that type.  Byte strings
  are strings.
\<close>

record storage_env =
  gzip_compress :: "string \<Rightarrow> string"
  gzip_decompress :: "string \<Rightarrow> string"
  date_path :: string
  strftime_now :: string

record 'd py_repr =
  json_dumps :: "'d \<Rightarrow> string"
  str_of :: "'d \<Rightarrow> string"
  to_parquet :: "'d \<Rightarrow> string"
  to_csv :: "'d \<Rightarrow> string"

text \<open>\<^verbatim>\<open>json.dumps\<close> of a list: the items' texts, separated by a comma and a space, in
  brackets.\<close>

definition json_dumps_list :: "('r \<Rightarrow> string) \<Rightarrow> 'r list \<Rightarrow> string" where
  "json_dumps_list dumps xs = ''['' @ join '', '' (map dumps xs) @ '']''"

definition list_repr :: "'r py_repr \<Rightarrow> 'r list py_repr" where
  "list_repr f =
     \<lparr>json_dumps = json_dumps_list (json_dumps f),
      str_of = (\<lambda>xs. ''['' @ join '', '' (map (str_of f) xs) @ '']''),
      to_parquet = (\<lambda>xs. concat (map (to_parquet f) xs)),
      to_csv = (\<lambda>xs. concat (map (to_csv f) xs))\<rparr>"

definition generate_key :: "storage_env \<Rightarrow> string \<Rightarrow> string \<Rightarrow> string \<Rightarrow> string" where
  "generate_key st source data_type filename =
     data_type @ ''/'' @ source @ ''/'' @ date_path st @ ''/'' @ filename"

definition S3_RAW_DATA_PREFIX :: string where
  "S3_RAW_DATA_PREFIX = ''raw''"

definition S3_PROCESSED_DATA_PREFIX :: string where
  "S3_PROCESSED_DATA_PREFIX = ''processed''"

text \<open>\<^verbatim>\<open>if not filename\<close>: no file name, or an empty one.\<close>

definition filename_or :: "string option \<Rightarrow> string \<Rightarrow> string" where
  "filename_or filename d = (case filename of None \<Rightarrow> d | Some f \<Rightarrow> if f = [] then d else f)"

text \<open>
  The \<^verbatim>\<open>except ClientError\<close> handler of the two streaming functions.  Its guard is
  \<^verbatim>\<open>'UploadId' in locals()\<close>: whether the function has a local variable of that name.
  The names below are all the local variables the functions have (\<^verbatim>\<open>locals()\<close> holds
  those of them that are bound).  Inside the guard, \<^verbatim>\<open>mpu['UploadId']\<close> is read; an error
  there or in the abort request is caught and logged.  The handler then re-raises.
\<close>

definition stream_processed_text_data_locals :: "string list" where
  "stream_processed_text_data_locals =
     [''self'', ''source'', ''data_generator'', ''filename'', ''timestamp'', ''s3_key'',
      ''mpu'', ''parts'', ''part_number'', ''buffer'', ''buffer_size'', ''max_buffer_size'',
      ''chunk'', ''json_data'', ''compressed_data'', ''part'', ''e'', ''abort_error'']"

definition stream_raw_data_locals :: "string list" where
  "stream_raw_data_locals =
     [''self'', ''source'', ''data_generator'', ''filename'', ''timestamp'', ''s3_key'',
      ''all_data'', ''chunk'', ''json_data'', ''compressed_data'', ''mpu'', ''parts'',
      ''part_number'', ''chunk_size'', ''i'', ''part'', ''e'', ''abort_error'']"

definition abort_on_error :: "string list \<Rightarrow> string \<Rightarrow> nat option \<Rightarrow> s3 \<Rightarrow> s3" where
  "abort_on_error local_names s3_key mpu s =
     (if ''UploadId'' \<in> set local_names
      then (case mpu of
              None \<Rightarrow> s
            | Some upload_id \<Rightarrow> snd (abort_multipart_upload s3_key upload_id s))
      else s)"

text \<open>An exception \<open>x\<close> reaches the handlers of \<^verbatim>\<open>stream_processed_text_data\<close>: both
  re-raise; only the one for \<^verbatim>\<open>ClientError\<close> has the abort code.\<close>

definition reraise :: "string list \<Rightarrow> string \<Rightarrow> nat option \<Rightarrow> exn \<Rightarrow> s3 \<Rightarrow> (exn + 'a) \<times> s3" where
  "reraise local_names s3_key mpu x s =
     (Inl x, if x = ClientError then abort_on_error local_names s3_key mpu s else s)"

definition max_buffer_size :: nat where
  "max_buffer_size = 5 * 1024 * 1024"

text \<open>
  The \<^verbatim>\<open>for chunk in data_generator\<close> loop of \<^verbatim>\<open>stream_processed_text_data\<close>.  The loop
  state is \<open>(parts, part_number, buffer, buffer_size)\<close>.
\<close>

fun stream_chunks ::
  "storage_env \<Rightarrow> 'r py_repr \<Rightarrow> string \<Rightarrow> nat \<Rightarrow> 'r list
     \<Rightarrow> (nat \<times> string) list \<times> nat \<times> 'r list \<times> nat \<Rightarrow> s3
     \<Rightarrow> (exn + (nat \<times> string) list \<times> nat \<times> 'r list \<times> nat) \<times> s3" where
  "stream_chunks st f s3_key upload_id [] state s = (Inr state, s)"
| "stream_chunks st f s3_key upload_id (chunk # rest) (parts, part_number, buffer, buffer_size) s =
     (let buffer1 = buffer @ [chunk];
          buffer_size1 = buffer_size + length (str_of f chunk)
      in if buffer_size1 \<ge> max_buffer_size
         then (let json_data = json_dumps_list (json_dumps f) buffer1;
                   compressed_data = gzip_compress st json_data
               in case upload_part s3_key part_number upload_id compressed_data s of
                    (Inl x, s1) \<Rightarrow> (Inl x, s1)
                  | (Inr etag, s1) \<Rightarrow>
                      stream_chunks st f s3_key upload_id rest
                        (parts @ [(part_number, etag)], part_number + 1, [], 0) s1)
         else stream_chunks st f s3_key upload_id rest
                (parts, part_number, buffer1, buffer_size1) s)"

text \<open>The \<^verbatim>\<open>if buffer:\<close> block after the loop: the last part.\<close>

definition upload_rest ::
  "storage_env \<Rightarrow> 'r py_repr \<Rightarrow> string \<Rightarrow> nat
     \<Rightarrow> (nat \<times> string) list \<times> nat \<times> 'r list \<times> nat \<Rightarrow> s3
     \<Rightarrow> (exn + (nat \<times> string) list) \<times> s3" where
  "upload_rest st f s3_key upload_id state s =
     (case state of (parts, part_number, buffer, buffer_size) \<Rightarrow>
        if buffer \<noteq> []
        then (let json_data = json_dumps_list (json_dumps f) buffer;
                  compressed_data = gzip_compress st json_data
              in case upload_part s3_key part_number upload_id compressed_data s of
                   (Inl x, s1) \<Rightarrow> (Inl x, s1)
                 | (Inr etag, s1) \<Rightarrow> (Inr (parts @ [(part_number, etag)]), s1))
        else (Inr parts, s))"

text \<open>
  \<^verbatim>\<open>stream_processed_text_data\<close>.  The generator is given by the records it yields and by
  the exception it ends with, if it ends with one.
\<close>

definition stream_processed_text_data ::
  "storage_env \<Rightarrow> 'r py_repr \<Rightarrow> string \<Rightarrow> 'r list \<Rightarrow> exn option \<Rightarrow> string option \<Rightarrow> s3
     \<Rightarrow> (exn + string) \<times> s3" where
  "stream_processed_text_data st f source data_generator ending filename s =
     (let fname = filename_or filename (source @ ''_'' @ strftime_now st @ ''_text.json.gz'');
          s3_key = generate_key st source ''text_processed'' fname;
          names = stream_processed_text_data_locals
      in case create_multipart_upload s3_key s of
           (Inl x, s1) \<Rightarrow> reraise names s3_key None x s1
         | (Inr upload_id, s1) \<Rightarrow>
             (case stream_chunks st f s3_key upload_id data_generator ([], 1, [], 0) s1 of
                (Inl x, s2) \<Rightarrow> reraise names s3_key (Some upload_id) x s2
              | (Inr state, s2) \<Rightarrow>
                  (case ending of
                     Some x \<Rightarrow> reraise names s3_key (Some upload_id) x s2
                   | None \<Rightarrow>
                       (case upload_rest st f s3_key upload_id state s2 of
                          (Inl x, sa) \<Rightarrow> reraise names s3_key (Some upload_id) x sa
                        | (Inr parts, sa) \<Rightarrow>
                            (case complete_multipart_upload s3_key upload_id parts sa of
                               (Inl x, sb) \<Rightarrow> reraise names s3_key (Some upload_id) x sb
                             | (Inr u, sb) \<Rightarrow> (Inr s3_key, sb))))))"

text \<open>\<^verbatim>\<open>store_processed_text_data\<close>: one whole-object write.\<close>

definition store_processed_text_data ::
  "storage_env \<Rightarrow> 'd py_repr \<Rightarrow> string \<Rightarrow> 'd \<Rightarrow> string option \<Rightarrow> s3 \<Rightarrow> (exn + string) \<times> s3" where
  "store_processed_text_data st f source data filename s =
     (let fname = filename_or filename (source @ ''_'' @ strftime_now st @ ''_text.json.gz'');
          s3_key = generate_key st source ''text_processed'' fname;
          json_data = json_dumps f data;
          compressed_data = gzip_compress st json_data
      in case put_object s3_key compressed_data s of
           (Inl x, s1) \<Rightarrow> (Inl x, s1)
         | (Inr u, s1) \<Rightarrow> (Inr s3_key, s1))"

text \<open>\<^verbatim>\<open>store_processed_data\<close>, with its three formats.\<close>

definition store_processed_data ::
  "storage_env \<Rightarrow> 'd py_repr \<Rightarrow> string \<Rightarrow> 'd \<Rightarrow> string \<Rightarrow> string option \<Rightarrow> s3
     \<Rightarrow> (exn + string) \<times> s3" where
  "store_processed_data st f source data format filename s =
     (let fname = filename_or filename (source @ ''_'' @ strftime_now st @ ''.'' @ format);
          s3_key = generate_key st source S3_PROCESSED_DATA_PREFIX fname
      in if format \<noteq> ''json'' \<and> format \<noteq> ''parquet'' \<and> format \<noteq> ''csv''
         then (Inl ValueError, s)
         else (let body = (if format = ''json'' then gzip_compress st (json_dumps f data)
                           else if format = ''parquet'' then to_parquet f data
                           else gzip_compress st (to_csv f data))
               in case put_object s3_key body s of
                    (Inl x, s1) \<Rightarrow> (Inl x, s1)
                  | (Inr u, s1) \<Rightarrow> (Inr s3_key, s1)))"

text \<open>The part loop of \<^verbatim>\<open>stream_raw_data\<close>, over the 5 MiB slices of the compressed
  data.\<close>

fun upload_slices ::
  "string \<Rightarrow> nat \<Rightarrow> string list \<Rightarrow> (nat \<times> string) list \<times> nat \<Rightarrow> s3
     \<Rightarrow> (exn + (nat \<times> string) list) \<times> s3" where
  "upload_slices s3_key upload_id [] (parts, part_number) s = (Inr parts, s)"
| "upload_slices s3_key upload_id (chunk # rest) (parts, part_number) s =
     (case upload_part s3_key part_number upload_id chunk s of
        (Inl x, s1) \<Rightarrow> (Inl x, s1)
      | (Inr etag, s1) \<Rightarrow>
          upload_slices s3_key upload_id rest (parts @ [(part_number, etag)], part_number + 1) s1)"

text \<open>\<^verbatim>\<open>stream_raw_data\<close>: it first collects the whole generator; its only handler is the
  one for \<^verbatim>\<open>ClientError\<close>.\<close>

definition stream_raw_data ::
  "storage_env \<Rightarrow> 'r py_repr \<Rightarrow> string \<Rightarrow> 'r list \<Rightarrow> exn option \<Rightarrow> string option \<Rightarrow> s3
     \<Rightarrow> (exn + string) \<times> s3" where
  "stream_raw_data st f source data_generator ending filename s =
     (let fname = filename_or filename (source @ ''_'' @ strftime_now st @ ''.json.gz'');
          s3_key = generate_key st source S3_RAW_DATA_PREFIX fname;
          names = stream_raw_data_locals;
          all_data = data_generator
      in case ending of
           Some x \<Rightarrow> reraise names s3_key None x s
         | None \<Rightarrow>
             if length all_data = 0 then (Inr s3_key, s)
             else (let json_data = json_dumps_list (json_dumps f) all_data;
                       compressed_data = gzip_compress st json_data
                   in if length compressed_data < 5 * 1024 * 1024
                      then (case put_object s3_key compressed_data s of
                              (Inl x, s1) \<Rightarrow> reraise names s3_key None x s1
                            | (Inr u, s1) \<Rightarrow> (Inr s3_key, s1))
                      else (case create_multipart_upload s3_key s of
                              (Inl x, s1) \<Rightarrow> reraise names s3_key None x s1
                            | (Inr upload_id, s1) \<Rightarrow>
                                (case upload_slices s3_key upload_id
                                        (chunks (5 * 1024 * 1024) compressed_data) ([], 1) s1 of
                                   (Inl x, s2) \<Rightarrow> reraise names s3_key (Some upload_id) x s2
                                 | (Inr parts, s2) \<Rightarrow>
                                     (case complete_multipart_upload s3_key upload_id parts s2 of
                                        (Inl x, sa) \<Rightarrow> reraise names s3_key (Some upload_id) x sa
                                      | (Inr u, sa) \<Rightarrow> (Inr s3_key, sa))))))"

text \<open>\<^verbatim>\<open>check_file_exists\<close>.\<close>

definition check_file_exists :: "string \<Rightarrow> s3 \<Rightarrow> (exn + bool) \<times> s3" where
  "check_file_exists key s = head_object key s"

text \<open>What a reader gets from a stored object once the gzip layer is removed (the
  first step of \<^verbatim>\<open>load_data\<close>).\<close>

definition decompressed_content :: "storage_env \<Rightarrow> s3 \<Rightarrow> string \<Rightarrow> string option" where
  "decompressed_content st s key = map_option (gzip_decompress st) (objects s key)"


section \<open>Post-crawl processing and the whole crawl\<close>

record summary =
  sm_total_pages :: nat
  sm_successful_crawls :: nat
  sm_failed_crawls :: nat
  sm_start_time :: string
  sm_end_time :: "string option"

record sitemap =
  sp_urls :: "string list"
  sp_last_updated :: string

record crawl_repr =
  text_repr :: "text_data py_repr"
  summary_repr :: "summary py_repr"
  sitemap_repr :: "sitemap py_repr"

text \<open>\<^verbatim>\<open>_post_crawl_processing\<close>: the metrics update, the summary and the sitemap.  An
  error of the store is logged and re-raised.\<close>

definition update_metrics :: "env \<Rightarrow> crawler \<Rightarrow> nat \<Rightarrow> crawler" where
  "update_metrics e c t =
     c\<lparr>metrics := (metrics c)\<lparr>end_time := Some (now_isoformat e t),
                                total_pages := fcard (visited_urls c),
                                successful_crawls := fcard (visited_urls c)\<rparr>\<rparr>"

definition make_summary :: "crawler \<Rightarrow> summary" where
  "make_summary c =
     \<lparr>sm_total_pages = total_pages (metrics c),
      sm_successful_crawls = successful_crawls (metrics c),
      sm_failed_crawls = failed_crawls (metrics c),
      sm_start_time = start_time (metrics c),
      sm_end_time = end_time (metrics c)\<rparr>"

definition post_crawl_processing ::
  "env \<Rightarrow> storage_env \<Rightarrow> crawl_repr \<Rightarrow> crawler \<Rightarrow> nat \<Rightarrow> s3 \<Rightarrow> exn option \<times> crawler \<times> s3" where
  "post_crawl_processing e st f c t s =
     (let c1 = update_metrics e c t;
          summary = make_summary c1
      in case store_processed_data st (summary_repr f) (name c1) summary ''json''
                (Some (name c1 @ ''_summary.json'')) s of
           (Inl x, s1) \<Rightarrow> (Some x, c1, s1)
         | (Inr key, s1) \<Rightarrow>
             (let sitemap = \<lparr>sp_urls = set_to_list e (visited_urls c1),
                             sp_last_updated = now_isoformat e t\<rparr>
              in case store_processed_data st (sitemap_repr f) (name c1) sitemap ''json''
                        (Some (name c1 @ ''_sitemap.json'')) s1 of
                   (Inl x, s2) \<Rightarrow> (Some x, c1, s2)
                 | (Inr key2, s2) \<Rightarrow> (None, c1, s2)))"

text \<open>
  \<^verbatim>\<open>crawl\<close>, for a storage object that has been constructed.  The generator's
  statements read and write the crawler only, the consumer's the store only, so the
  run of the generator is computed first and its records are then streamed.  When the
  call raises, the result is the exception and the store.
\<close>

definition crawl ::
  "env \<Rightarrow> storage_env \<Rightarrow> crawl_repr \<Rightarrow> crawler \<Rightarrow> nat \<Rightarrow> s3
     \<Rightarrow> (exn + page_data list \<times> crawler) \<times> s3" where
  "crawl e st f c t s =
     (let (ending, g) = text_data_generator e (crawl_start c t)
      in case stream_processed_text_data st (text_repr f) (name c) (yielded g) ending None s of
           (Inl x, s1) \<Rightarrow> (Inl x, s1)
         | (Inr key, s1) \<Rightarrow>
             (case post_crawl_processing e st f (self g) (clock g) s1 of
                (Some x, c1, s2) \<Rightarrow> (Inl x, s2)
              | (None, c1, s2) \<Rightarrow> (Inr (crawled_data g, c1), s2)))"

text \<open>The key under which a run stores its summary.\<close>

definition summary_key :: "storage_env \<Rightarrow> crawler \<Rightarrow> string" where
  "summary_key st c =
     generate_key st (name c) S3_PROCESSED_DATA_PREFIX (name c @ ''_summary.json'')"


section \<open>Properties of runs, and keys\<close>

text \<open>
  A property of the log of \<^verbatim>\<open>get_page\<close> calls: once a call for a URL has given a page,
  no later call is for that URL.  The second definition adds that every URL that has
  given a page is in the visited set.
\<close>

fun no_refetch :: "(string \<times> bool) list \<Rightarrow> bool" where
  "no_refetch [] = True"
| "no_refetch ((url, ok) # later) =
     ((if ok then url \<notin> fst ` set later else True) \<and> no_refetch later)"

definition log_ok :: "crawl_state \<Rightarrow> bool" where
  "log_ok s = (no_refetch (fetch_log s)
               \<and> list_all (\<lambda>(u, ok). ok \<longrightarrow> u |\<in>| visited_urls (self s)) (fetch_log s))"


text \<open>The keys the two streaming functions write to.\<close>

definition text_key :: "storage_env \<Rightarrow> string \<Rightarrow> string option \<Rightarrow> string" where
  "text_key st source filename =
     generate_key st source ''text_processed''
       (filename_or filename (source @ ''_'' @ strftime_now st @ ''_text.json.gz''))"

definition raw_key :: "storage_env \<Rightarrow> string \<Rightarrow> string option \<Rightarrow> string" where
  "raw_key st source filename =
     generate_key st source S3_RAW_DATA_PREFIX
       (filename_or filename (source @ ''_'' @ strftime_now st @ ''.json.gz''))"

text \<open>The visited set is a given set together with the URLs whose fetch has given a
  page.\<close>

definition visited_is :: "string fset \<Rightarrow> crawl_state \<Rightarrow> bool" where
  "visited_is V s =
     (visited_urls (self s) = V |\<union>| fset_of_list (map fst (filter snd (fetch_log s))))"

section \<open>A small site, for the examples\<close>

text \<open>
  A world with three pages under \<^verbatim>\<open>http://s\<close>.  The home page links to \<^verbatim>\<open>/b\<close>, to
  \<^verbatim>\<open>/c\<close>, to one of its own anchors and to another host; page \<^verbatim>\<open>/c\<close> links to \<^verbatim>\<open>/b\<close>;
  every request for \<^verbatim>\<open>/b\<close> fails.  For the session, \<^verbatim>\<open>/x\<close> raises an exception that is
  not a request exception; the browser renders the home page, gets an error page with
  status 500 at \<^verbatim>\<open>/e\<close>, and raises elsewhere.  The states of the world count the
  requests.  The digest is the identity, a set is listed in
  sorted order, and \<^verbatim>\<open>urljoin\<close> is given on the three shapes of reference that occur:
  a fragment is appended to the page's URL, an absolute path to the host, and an
  absolute URL is returned as it is.
\<close>

definition site :: env where
  "site =
     \<lparr>md5_hexdigest = (\<lambda>s. s),
      set_to_list = sorted_list_of_fset,
      session_get = (\<lambda>t url. if url = ''http://s'' then Responds 200 ''home''
                              else if url = ''http://s/c'' then Responds 200 ''pagec''
                              else if url = ''http://s/b'' then Raises RequestException
                              else if url = ''http://s/x'' then Raises OtherException
                              else Responds 404 []),
      page_content = (\<lambda>t url. if url = ''http://s'' then Responds 200 ''home''
                               else if url = ''http://s/e'' then Responds 500 ''error''
                               else Raises OtherException),
      after_request = (\<lambda>t url. Suc t),
      find_all_a_href = (\<lambda>html. if html = ''home'' then [''http://s/b'', ''/c'', ''#top'', ''http://x/'']
                                 else if html = ''pagec'' then [''http://s/b'']
                                 else []),
      urljoin = (\<lambda>base href. if startswith href ''#'' then base @ href
                              else if startswith href ''/'' then ''http://s'' @ href
                              else href),
      extract_text = (\<lambda>html. html),
      find_all_img_src = (\<lambda>html. []),
      extract_metadata = (\<lambda>html. []),
      extract_entities = (\<lambda>text. []),
      extract_keywords = (\<lambda>text. []),
      now_isoformat = (\<lambda>t. [])\<rparr>"


text \<open>Two crawlers for the small site: one with the default limit of 100 pages, one
  with a limit of 2.\<close>

definition site_crawler :: crawler where
  "site_crawler = Crawler_init site StaticCrawler
     \<lparr>cfg_name = Some ''s'', cfg_url = Some ''http://s'', cfg_dynamic = None,
      cfg_page_limit = None\<rparr>"

definition limited_crawler :: crawler where
  "limited_crawler = Crawler_init site StaticCrawler
     \<lparr>cfg_name = Some ''s'', cfg_url = Some ''http://s'', cfg_dynamic = None,
      cfg_page_limit = Some 2\<rparr>"

text \<open>
  A storage environment and renderings for the examples: gzip stores its input as it
  is, a text record is rendered by its URL, a summary by one letter per counted page,
  and a sitemap by its URLs.
\<close>

definition plain_storage :: storage_env where
  "plain_storage = \<lparr>gzip_compress = (\<lambda>b. b), gzip_decompress = (\<lambda>b. b),
                     date_path = ''2025/01/01'', strftime_now = ''20250101000000''\<rparr>"

definition plain_repr :: crawl_repr where
  "plain_repr =
     \<lparr>text_repr = \<lparr>json_dumps = td_url, str_of = td_url, to_parquet = td_url, to_csv = td_url\<rparr>,
      summary_repr =
        \<lparr>json_dumps = (\<lambda>sm. replicate (sm_total_pages sm) CHR ''p''
                               @ replicate (sm_successful_crawls sm) CHR ''s''
                               @ replicate (sm_failed_crawls sm) CHR ''f''),
         str_of = sm_start_time, to_parquet = sm_start_time, to_csv = sm_start_time\<rparr>,
      sitemap_repr = \<lparr>json_dumps = (\<lambda>sp. concat (sp_urls sp)), str_of = sp_last_updated,
                      to_parquet = sp_last_updated, to_csv = sp_last_updated\<rparr>\<rparr>"

text \<open>Two inputs: one text record, and records whose rendering is as long as the
  number they are.\<close>

definition one_record :: text_data where
  "one_record = \<lparr>td_url = ''http://s'', td_entities = [], td_keywords = [],
                  td_content_hash = ''home'', td_timestamp = []\<rparr>"

definition big_repr :: "nat py_repr" where
  "big_repr = \<lparr>json_dumps = (\<lambda>n. replicate n CHR ''x''), str_of = (\<lambda>n. replicate n CHR ''x''),
                to_parquet = (\<lambda>n. []), to_csv = (\<lambda>n. [])\<rparr>"

text \<open>
  A second world: the home page and \<^verbatim>\<open>/m\<close> have the same content, the home page links
  to \<^verbatim>\<open>/m\<close> and to \<^verbatim>\<open>/b\<close>, and every request for \<^verbatim>\<open>/b\<close> fails.
\<close>

definition twin_site :: env where
  "twin_site =
     site\<lparr>session_get := (\<lambda>t url. if url = ''http://s'' \<or> url = ''http://s/m''
                                    then Responds 200 ''twin''
                                    else Raises RequestException),
          find_all_a_href := (\<lambda>html. if html = ''twin'' then [''/m'', ''/b''] else [])\<rparr>"

definition twin_crawler :: crawler where
  "twin_crawler = Crawler_init twin_site StaticCrawler
     \<lparr>cfg_name = Some ''s'', cfg_url = Some ''http://s'', cfg_dynamic = None,
      cfg_page_limit = None\<rparr>"

section \<open>Helper facts\<close>

lemma site_fields [simp]:
  "md5_hexdigest site = (\<lambda>s. s)"
  "set_to_list site = sorted_list_of_fset"
  "extract_text site = (\<lambda>html. html)"
  "find_all_img_src site = (\<lambda>html. [])"
  "extract_metadata site = (\<lambda>html. [])"
  "extract_entities site = (\<lambda>text. [])"
  "extract_keywords site = (\<lambda>text. [])"
  "now_isoformat site = (\<lambda>t. [])"
  by (simp_all add: site_def)

lemma distinct_sorted_list_of_fset: "distinct (sorted_list_of_fset S)"
  by (simp add: sorted_list_of_fset.rep_eq)

lemma site_lists_set: "\<forall>S. lists_set site S"
  by (simp add: lists_set_def distinct_sorted_list_of_fset)

lemma hash_letters [simp]:
  "calculate_content_hash site ''a'' = ''a''"
  "calculate_content_hash site ''b'' = ''b''"
  "calculate_content_hash site ''c'' = ''c''"
  by (simp_all add: calculate_content_hash_def normalize_chunk_def split_def lower_def
        lower_char_def isspace_def chunks.simps)

lemma lists_set_length: "lists_set e S \<Longrightarrow> length (set_to_list e S) = fcard S"
  unfolding lists_set_def
  by (metis distinct_card fcard.rep_eq fset_of_list.rep_eq)

lemma last_items_all: "length xs \<le> m \<Longrightarrow> last_items m xs = xs"
  by (simp add: last_items_def)

lemma is_duplicate_at_capacity:
  assumes "lists_set e (content_hashes tp)"
      and "fcard (content_hashes tp) \<le> max_hashes tp"
      and "calculate_content_hash e text |\<notin>| content_hashes tp"
  shows "is_duplicate e tp text =
           (False, tp\<lparr>content_hashes := finsert (calculate_content_hash e text) (content_hashes tp)\<rparr>)"
proof -
  have len: "length (set_to_list e (content_hashes tp)) \<le> max_hashes tp"
    using assms(1,2) by (simp add: lists_set_length)
  have same: "fset_of_list (last_items (max_hashes tp) (set_to_list e (content_hashes tp)))
                = content_hashes tp"
    using assms(1) len by (simp add: last_items_all lists_set_def)
  show ?thesis
    using assms(3) same by (simp add: is_duplicate_def Let_def)
qed

lemma check_all_fresh:
  assumes "\<forall>S. lists_set e S"
  shows "distinct (map (calculate_content_hash e) ts) \<Longrightarrow>
         fset_of_list (map (calculate_content_hash e) ts) |\<inter>| content_hashes tp = {||} \<Longrightarrow>
         fcard (content_hashes tp) + length ts \<le> max_hashes tp + 1 \<Longrightarrow>
         check_all e tp ts =
           (replicate (length ts) False,
            tp\<lparr>content_hashes := content_hashes tp |\<union>| fset_of_list (map (calculate_content_hash e) ts)\<rparr>)"
proof (induction ts arbitrary: tp)
  case Nil
  then show ?case by simp
next
  case (Cons t ts)
  let ?h = "calculate_content_hash e t"
  let ?tp1 = "tp\<lparr>content_hashes := finsert ?h (content_hashes tp)\<rparr>"
  have notin: "?h |\<notin>| content_hashes tp"
    using Cons.prems(2) by auto
  have step: "is_duplicate e tp t = (False, ?tp1)"
    using assms Cons.prems(3) notin by (intro is_duplicate_at_capacity) auto
  have d: "distinct (map (calculate_content_hash e) ts)"
    using Cons.prems(1) by simp
  have disj: "fset_of_list (map (calculate_content_hash e) ts) |\<inter>| content_hashes ?tp1 = {||}"
    using Cons.prems(1,2) by (auto simp: fset_of_list_elem)
  have card: "fcard (content_hashes ?tp1) + length ts \<le> max_hashes ?tp1 + 1"
    using Cons.prems(3) notin by (simp add: fcard_finsert_disjoint)
  have "check_all e ?tp1 ts =
           (replicate (length ts) False,
            ?tp1\<lparr>content_hashes := content_hashes ?tp1 |\<union>| fset_of_list (map (calculate_content_hash e) ts)\<rparr>)"
    using Cons.IH[OF d disj card] .
  then show ?case
    using step by (simp add: funion_finsert_right)
qed

lemma lists_set_hd_tl:
  assumes "lists_set e S" and "fcard S = Suc m" and "0 < m"
  shows "fset_of_list (last_items m (set_to_list e S)) = S |-| {|hd (set_to_list e S)|}"
proof -
  let ?xs = "set_to_list e S"
  have len: "length ?xs = Suc m" using assms(1,2) by (simp add: lists_set_length)
  then obtain x ys where xs: "?xs = x # ys" by (cases ?xs) auto
  have "last_items m ?xs = ys" using len xs assms(3) by (simp add: last_items_def)
  moreover have "x \<notin> set ys" and "fset_of_list (x # ys) = S"
    using assms(1) xs by (auto simp: lists_set_def)
  ultimately show ?thesis using xs by (auto simp: fset_of_list_elem)
qed

lemma lists_set_last_items_card:
  assumes "lists_set e S" and "m \<le> fcard S" and "0 < m"
  shows "fcard (fset_of_list (last_items m (set_to_list e S))) = m"
    and "fset_of_list (last_items m (set_to_list e S)) |\<subseteq>| S"
proof -
  let ?xs = "set_to_list e S"
  have len: "length ?xs = fcard S" using assms(1) by (simp add: lists_set_length)
  have d: "distinct (drop (length ?xs - m) ?xs)" using assms(1) by (simp add: lists_set_def)
  have "fcard (fset_of_list (drop (length ?xs - m) ?xs)) = length (drop (length ?xs - m) ?xs)"
    using d by (metis distinct_card fcard.rep_eq fset_of_list.rep_eq)
  then show "fcard (fset_of_list (last_items m ?xs)) = m"
    using assms(2,3) len by (simp add: last_items_def)
  have "set (last_items m ?xs) \<subseteq> set ?xs"
    by (auto simp: last_items_def dest: in_set_dropD)
  moreover have "fset_of_list ?xs = S" using assms(1) by (simp add: lists_set_def)
  ultimately show "fset_of_list (last_items m ?xs) |\<subseteq>| S"
    by (metis fset_of_list_subset)
qed



lemma site_world [simp]:
  "after_request site w url = Suc w"
  "world_after site url n w = w + n"
proof -
  show a: "after_request site w url = Suc w" for w by (simp add: site_def)
  show "world_after site url n w = w + n"
    by (induction n arbitrary: w) (simp_all add: a)
qed

lemma generator_stop: "\<not> loop_cond s \<Longrightarrow> text_data_generator e s = (None, s)"
  by (subst text_data_generator.simps) simp

lemma generator_raise:
  "loop_cond s \<Longrightarrow> loop_body e s = (Some x, s1) \<Longrightarrow> text_data_generator e s = (Some x, s1)"
  by (subst text_data_generator.simps) simp

lemma generator_step:
  "loop_cond s \<Longrightarrow> loop_body e s = (None, s1) \<Longrightarrow>
     text_data_generator e s = text_data_generator e s1"
  by (subst text_data_generator.simps) simp

lemma states_stop: "\<not> loop_cond s \<Longrightarrow> crawl_states e s = [s]"
  by (subst crawl_states.simps) simp

lemma states_raise:
  "loop_cond s \<Longrightarrow> loop_body e s = (Some x, s1) \<Longrightarrow> crawl_states e s = [s, s1]"
  by (subst crawl_states.simps) simp

lemma states_step:
  "loop_cond s \<Longrightarrow> loop_body e s = (None, s1) \<Longrightarrow> crawl_states e s = s # crawl_states e s1"
  by (subst crawl_states.simps) simp

lemma crawl_induct [case_names stop raise step]:
  assumes "\<And>s. \<not> loop_cond s \<Longrightarrow> P s"
      and "\<And>s x s1. loop_cond s \<Longrightarrow> loop_body e s = (Some x, s1) \<Longrightarrow> P s"
      and "\<And>s s1. loop_cond s \<Longrightarrow> loop_body e s = (None, s1) \<Longrightarrow> P s1 \<Longrightarrow> P s"
  shows "P s"
proof -
  have "e1 = e \<Longrightarrow> P s" for e1
  proof (induction e1 s rule: text_data_generator.induct)
    case (1 e1 s)
    note e1 = \<open>e1 = e\<close>
    show ?case
    proof (cases "loop_cond s")
      case False
      then show ?thesis by (rule assms(1))
    next
      case True
      obtain r s1 where b: "loop_body e s = (r, s1)" by (cases "loop_body e s")
      show ?thesis
      proof (cases r)
        case None
        from b None have n: "loop_body e s = (None, s1)" by simp
        have "P s1" using "1.IH"[of r s1] True b None e1 by simp
        from assms(3)[OF True n this] show ?thesis .
      next
        case (Some x)
        from b Some have "loop_body e s = (Some x, s1)" by simp
        from assms(2)[OF True this] show ?thesis .
      qed
    qed
  qed
  then show ?thesis by simp
qed

lemma states_invariant:
  assumes pres: "\<And>s r s1. I s \<Longrightarrow> loop_cond s \<Longrightarrow> loop_body e s = (r, s1) \<Longrightarrow> I s1"
  shows "I s \<Longrightarrow> list_all I (crawl_states e s)"
proof (induction s rule: crawl_induct[where e = e])
  case (stop s)
  then show ?case by (simp add: states_stop)
next
  case (raise s x s1)
  then show ?case using pres[of s "Some x" s1] by (simp add: states_raise)
next
  case (step s s1)
  then show ?case using pres[of s None s1] by (simp add: states_step)
qed

lemma generator_last: "snd (text_data_generator e s) = last (crawl_states e s)"
proof (induction s rule: crawl_induct[where e = e])
  case (stop s)
  then show ?case by (simp add: states_stop generator_stop)
next
  case (raise s x s1)
  then show ?case by (simp add: states_raise generator_raise)
next
  case (step s s1)
  have "crawl_states e s1 \<noteq> []" by (subst crawl_states.simps) (simp split: prod.splits option.splits)
  then show ?case using step by (simp add: states_step generator_step)
qed

lemma generator_exit:
  "fst (text_data_generator e s) = None \<Longrightarrow> \<not> loop_cond (snd (text_data_generator e s))"
proof (induction s rule: crawl_induct[where e = e])
  case (stop s)
  then show ?case by (simp add: generator_stop)
next
  case (raise s x s1)
  then show ?case by (simp add: generator_raise)
next
  case (step s s1)
  then show ?case by (simp add: generator_step)
qed

text \<open>One iteration, by cases.\<close>

lemma loop_body_cases [consumes 1, case_names empty seen raised failed fetched]:
  assumes "loop_body e s = (r, s1)"
  obtains
    "to_visit s = []" "r = Some IndexError" "s1 = s"
  | url rest where "to_visit s = url # rest" "url |\<in>| visited_urls (self s)"
      "r = None" "s1 = s\<lparr>to_visit := rest\<rparr>"
  | url rest x t where "to_visit s = url # rest" "url |\<notin>| visited_urls (self s)"
      "get_page e (self s) url (clock s) = (Inl x, t)"
      "r = Some x" "s1 = fetch_failed (s\<lparr>to_visit := rest\<rparr>) url t"
  | url rest h t where "to_visit s = url # rest" "url |\<notin>| visited_urls (self s)"
      "get_page e (self s) url (clock s) = (Inr h, t)" "h = None \<or> h = Some []"
      "r = None" "s1 = fetch_failed (s\<lparr>to_visit := rest\<rparr>) url t"
  | url rest html t where "to_visit s = url # rest" "url |\<notin>| visited_urls (self s)"
      "get_page e (self s) url (clock s) = (Inr (Some html), t)" "html \<noteq> []"
      "r = None" "s1 = page_fetched e (s\<lparr>to_visit := rest\<rparr>) url html t"
proof (cases "to_visit s")
  case Nil
  with assms have "r = Some IndexError" and "s1 = s" by (simp_all add: loop_body_def)
  with Nil show ?thesis by (rule that(1))
next
  case (Cons url rest)
  show ?thesis
  proof (cases "url |\<in>| visited_urls (self s)")
    case True
    with assms Cons have "r = None" and "s1 = s\<lparr>to_visit := rest\<rparr>"
      by (simp_all add: loop_body_def Let_def)
    with Cons True show ?thesis by (rule that(2))
  next
    case False
    obtain g t where g: "get_page e (self s) url (clock s) = (g, t)"
      by (cases "get_page e (self s) url (clock s)")
    show ?thesis
    proof (cases g)
      case (Inl x)
      with assms Cons False g
      have "r = Some x" and "s1 = fetch_failed (s\<lparr>to_visit := rest\<rparr>) url t"
        by (simp_all add: loop_body_def Let_def)
      moreover have "get_page e (self s) url (clock s) = (Inl x, t)" using g Inl by simp
      ultimately show ?thesis using Cons False that(3) by blast
    next
      case (Inr h)
      have gh: "get_page e (self s) url (clock s) = (Inr h, t)" using g Inr by simp
      show ?thesis
      proof (cases "h = None \<or> h = Some []")
        case True
        have "r = None \<and> s1 = fetch_failed (s\<lparr>to_visit := rest\<rparr>) url t"
        proof (cases h)
          case None
          with assms Cons False gh show ?thesis by (simp add: loop_body_def Let_def)
        next
          case (Some html)
          with True have "html = []" by simp
          with assms Cons False gh Some show ?thesis by (simp add: loop_body_def Let_def)
        qed
        then show ?thesis using Cons False gh True that(4) by blast
      next
        case no: False
        then obtain html where h: "h = Some html" "html \<noteq> []" by (cases h) auto
        with assms Cons False gh
        have "r = None" and "s1 = page_fetched e (s\<lparr>to_visit := rest\<rparr>) url html t"
          by (simp_all add: loop_body_def Let_def)
        moreover have "get_page e (self s) url (clock s) = (Inr (Some html), t)"
          using gh h by simp
        ultimately show ?thesis using Cons False h(2) that(5) by blast
      qed
    qed
  qed
qed

lemma loop_body_limit:
  assumes "loop_body e s = (r, s1)"
  shows "page_limit (self s1) = page_limit (self s)
         \<and> fcard (visited_urls (self s1)) \<le> Suc (fcard (visited_urls (self s)))"
  using assms
proof (cases rule: loop_body_cases)
  case (fetched url rest html t)
  then show ?thesis
    using page_fetched_self[of e "s\<lparr>to_visit := rest\<rparr>" url html t]
    by (simp add: fcard_finsert_if)
qed (simp_all add: fetch_failed_def)

lemma site_net [simp]:
  "session_get site t ''http://s'' = Responds 200 ''home''"
  "session_get site t ''http://s/c'' = Responds 200 ''pagec''"
  "session_get site t ''http://s/b'' = Raises RequestException"
  "find_all_a_href site ''home'' = [''http://s/b'', ''/c'', ''#top'', ''http://x/'']"
  "find_all_a_href site ''pagec'' = [''http://s/b'']"
  "urljoin site base ''http://s/b'' = ''http://s/b''"
  "urljoin site base ''/c'' = ''http://s/c''"
  "urljoin site base ''#top'' = base @ ''#top''"
  "urljoin site base ''http://x/'' = ''http://x/''"
  by (simp_all add: site_def startswith_def)

lemma hash_pages [simp]:
  "calculate_content_hash site ''home'' = ''home''"
  "calculate_content_hash site ''pagec'' = ''pagec''"
  by (simp_all add: calculate_content_hash_def normalize_chunk_def split_def lower_def
        lower_char_def isspace_def chunks.simps)

lemmas run_defs =
  loop_cond_def loop_body_def crawl_start_def Crawler_init_def
  get_default_def get_page_def BaseCrawler_get_page_def respect_robots_txt_def
  MAX_RETRIES_def page_fetched_eq fetch_failed_def parse_eq process_text_def
  is_duplicate_def TextProcessor_init_def Let_def extract_links_def startswith_def
  extract_images_def fcard_finsert_if fcard_fempty

lemma limited_run:
  "map (\<lambda>s1. fcard (visited_urls (self s1))) (crawl_states site (crawl_start limited_crawler 0))
     = [0, 1, 1, 2]"
  "fst (text_data_generator site (crawl_start limited_crawler 0)) = None"
  by (simp_all add: limited_crawler_def run_defs crawl_states.simps text_data_generator.simps)

lemma crawl_start_fields [simp]:
  "self (crawl_start c t) = c"
  "to_visit (crawl_start c t) = [base_url c]"
  "fetch_log (crawl_start c t) = []"
  "clock (crawl_start c t) = t"
  by (simp_all add: crawl_start_def)

lemma no_refetch_snoc:
  "no_refetch (log @ [(u, b)]) \<longleftrightarrow> no_refetch log \<and> (u, True) \<notin> set log"
  by (induction log rule: no_refetch.induct) auto

lemma page_fetched_log:
  "fetch_log (page_fetched e s url html t) = fetch_log s @ [(url, True)]"
  by (simp add: page_fetched_eq Let_def split: option.splits)

lemma log_ok_step:
  assumes "log_ok s" and "loop_body e s = (r, s1)"
  shows "log_ok s1"
proof -
  have miss: "(u, True) \<notin> set (fetch_log s)" if "u |\<notin>| visited_urls (self s)" for u
    using assms(1) that by (auto simp: log_ok_def list_all_iff)
  from assms(2) show ?thesis
  proof (cases rule: loop_body_cases)
    case empty
    then show ?thesis using assms(1) by simp
  next
    case (seen url rest)
    then show ?thesis using assms(1) by (simp add: log_ok_def)
  next
    case (raised url rest x t)
    then show ?thesis
      using assms(1) miss[of url] by (simp add: log_ok_def fetch_failed_def no_refetch_snoc)
  next
    case (failed url rest h t)
    then show ?thesis
      using assms(1) miss[of url] by (simp add: log_ok_def fetch_failed_def no_refetch_snoc)
  next
    case (fetched url rest html t)
    have "visited_urls (self s1) = finsert url (visited_urls (self s))"
      using fetched page_fetched_self[of e "s\<lparr>to_visit := rest\<rparr>" url html t] by simp
    moreover have "fetch_log s1 = fetch_log s @ [(url, True)]"
      using fetched by (simp add: page_fetched_log)
    ultimately show ?thesis
      using assms(1) miss[of url] fetched(2)
      by (auto simp: log_ok_def no_refetch_snoc list_all_iff)
  qed
qed

lemma log_ok_run: "log_ok s \<Longrightarrow> log_ok (snd (text_data_generator e s))"
proof -
  assume "log_ok s"
  then have "list_all log_ok (crawl_states e s)"
    by (rule states_invariant[where I = log_ok and e = e, rotated]) (rule log_ok_step)
  moreover have "crawl_states e s \<noteq> []"
    by (subst crawl_states.simps) (simp split: prod.splits option.splits)
  ultimately show ?thesis
    by (simp add: generator_last list_all_iff)
qed

lemma site_run:
  "fetch_log (snd (text_data_generator site (crawl_start site_crawler 0)))
     = [(''http://s'', True), (''http://s/b'', False), (''http://s/c'', True), (''http://s/b'', False)]"
  "visited_urls (self (snd (text_data_generator site (crawl_start site_crawler 0))))
     = {|''http://s/c'', ''http://s''|}"
  "fst (text_data_generator site (crawl_start site_crawler 0)) = None"
  by (simp_all add: site_crawler_def run_defs text_data_generator.simps)



lemma loop_body_keeps:
  assumes "loop_body e s = (r, s1)"
  shows "metrics (self s1) = metrics (self s) \<and> name (self s1) = name (self s)"
  using assms
proof (cases rule: loop_body_cases)
  case (fetched url rest html t)
  then show ?thesis
    by (simp add: page_fetched_eq Let_def parse_keeps split: option.splits)
qed (simp_all add: fetch_failed_def)

lemma generator_keeps:
  "metrics (self (snd (text_data_generator e s))) = metrics (self s)
   \<and> name (self (snd (text_data_generator e s))) = name (self s)"
proof (induction s rule: crawl_induct[where e = e])
  case (stop s)
  then show ?case by (simp add: generator_stop)
next
  case (raise s x s1)
  then show ?case using loop_body_keeps[of e s "Some x" s1] by (simp add: generator_raise)
next
  case (step s s1)
  then show ?case using loop_body_keeps[of e s None s1] by (simp add: generator_step)
qed

lemma put_object_ok:
  "put_object key body s = (Inr u, s1) \<Longrightarrow>
     objects s1 = (objects s)(key \<mapsto> body)"
  by (auto simp: put_object_def receive_def Let_def split: list.splits if_splits)

lemma store_processed_data_json:
  assumes "store_processed_data st f source data ''json'' (Some fname) s = (Inr key, s1)"
      and "fname \<noteq> []"
  shows "key = generate_key st source S3_PROCESSED_DATA_PREFIX fname
         \<and> objects s1 = (objects s)(key \<mapsto> gzip_compress st (json_dumps f data))"
proof -
  let ?k = "generate_key st source S3_PROCESSED_DATA_PREFIX fname"
  let ?b = "gzip_compress st (json_dumps f data)"
  obtain r s2 where p: "put_object ?k ?b s = (r, s2)" by (cases "put_object ?k ?b s")
  from assms p have "r = Inr ()" and "s1 = s2" and "key = ?k"
    by (auto simp: store_processed_data_def filename_or_def Let_def split: sum.splits)
  with p put_object_ok[of ?k ?b s "()" s2] show ?thesis by simp
qed

lemma post_crawl_summary:
  assumes "post_crawl_processing e st f c t s = (None, c1, s1)"
  shows "c1 = update_metrics e c t
         \<and> objects s1 (summary_key st c)
             = Some (gzip_compress st (json_dumps (summary_repr f) (make_summary c1)))"
proof -
  let ?c = "update_metrics e c t"
  have nm: "name ?c = name c" by (simp add: update_metrics_def)
  let ?put1 = "store_processed_data st (summary_repr f) (name c) (make_summary ?c) ''json''
                 (Some (name c @ ''_summary.json'')) s"
  obtain r1 sa where a: "?put1 = (r1, sa)" by (cases ?put1)
  from assms a nm obtain k1 where r1: "r1 = Inr k1"
    by (cases r1) (simp_all add: post_crawl_processing_def Let_def)
  let ?sitemap = "\<lparr>sp_urls = set_to_list e (visited_urls ?c), sp_last_updated = now_isoformat e t\<rparr>"
  let ?put2 = "store_processed_data st (sitemap_repr f) (name c) ?sitemap ''json''
                 (Some (name c @ ''_sitemap.json'')) sa"
  obtain r2 sb where b: "?put2 = (r2, sb)" by (cases ?put2)
  from assms a r1 b nm obtain k2 where r2: "r2 = Inr k2" and c1: "c1 = ?c" and s1: "s1 = sb"
    by (cases r2) (simp_all add: post_crawl_processing_def Let_def)
  from store_processed_data_json[of st "summary_repr f" "name c" "make_summary ?c" _ s k1 sa]
    a r1
  have o1: "objects sa = (objects s)(summary_key st c
              \<mapsto> gzip_compress st (json_dumps (summary_repr f) (make_summary ?c)))"
    by (simp add: summary_key_def)
  from store_processed_data_json[of st "sitemap_repr f" "name c" ?sitemap _ sa k2 sb] b r2
  have o2: "objects sb = (objects sa)(generate_key st (name c) S3_PROCESSED_DATA_PREFIX
              (name c @ ''_sitemap.json'') \<mapsto> gzip_compress st (json_dumps (sitemap_repr f) ?sitemap))"
    by simp
  have "generate_key st (name c) S3_PROCESSED_DATA_PREFIX (name c @ ''_sitemap.json'')
          \<noteq> summary_key st c"
    by (simp add: summary_key_def generate_key_def)
  with o1 o2 c1 s1 show ?thesis by simp
qed

lemmas store_defs =
  stream_processed_text_data_def create_multipart_upload_def receive_def s3_empty_def
  upload_rest_def upload_part_def complete_multipart_upload_def parts_acceptable_def
  json_dumps_list_def max_buffer_size_def post_crawl_processing_def
  store_processed_data_def put_object_def filename_or_def generate_key_def
  update_metrics_def make_summary_def reraise_def abort_on_error_def
  S3_PROCESSED_DATA_PREFIX_def S3_RAW_DATA_PREFIX_def summary_key_def

lemma handler_dead:
  "reraise stream_processed_text_data_locals key mpu x s = (Inl x, s)"
  "reraise stream_raw_data_locals key mpu x s = (Inl x, s)"
  by (simp_all add: reraise_def abort_on_error_def stream_processed_text_data_locals_def
        stream_raw_data_locals_def)

lemma post_crawl_requests:
  "\<exists>later. requests (snd (snd (post_crawl_processing e st f c t s)))
      = requests s @ PutObject (summary_key st c)
          (gzip_compress st (json_dumps (summary_repr f) (make_summary (update_metrics e c t))))
        # later"
  by (simp add: post_crawl_processing_def store_processed_data_def put_object_def receive_def
        filename_or_def summary_key_def update_metrics_def Let_def
      split: list.splits)


lemma twin_fields [simp]:
  "md5_hexdigest twin_site = (\<lambda>s. s)"
  "set_to_list twin_site = sorted_list_of_fset"
  "extract_text twin_site = (\<lambda>html. html)"
  "find_all_img_src twin_site = (\<lambda>html. [])"
  "extract_metadata twin_site = (\<lambda>html. [])"
  "extract_entities twin_site = (\<lambda>text. [])"
  "extract_keywords twin_site = (\<lambda>text. [])"
  "now_isoformat twin_site = (\<lambda>t. [])"
  "after_request twin_site w url = Suc w"
  "session_get twin_site t ''http://s'' = Responds 200 ''twin''"
  "session_get twin_site t ''http://s/m'' = Responds 200 ''twin''"
  "session_get twin_site t ''http://s/b'' = Raises RequestException"
  "find_all_a_href twin_site ''twin'' = [''/m'', ''/b'']"
  "urljoin twin_site base ''/m'' = ''http://s/m''"
  "urljoin twin_site base ''/b'' = ''http://s/b''"
  "calculate_content_hash twin_site ''twin'' = ''twin''"
  by (simp_all add: twin_site_def site_def startswith_def calculate_content_hash_def
        normalize_chunk_def split_def lower_def lower_char_def isspace_def chunks.simps)

lemma twin_run:
  "fetch_log (snd (text_data_generator twin_site (crawl_start twin_crawler 0)))
     = [(''http://s'', True), (''http://s/m'', True), (''http://s/b'', False)]"
  "visited_urls (self (snd (text_data_generator twin_site (crawl_start twin_crawler 0))))
     = {|''http://s/m'', ''http://s''|}"
  "map td_url (yielded (snd (text_data_generator twin_site (crawl_start twin_crawler 0))))
     = [''http://s'']"
  by (simp_all add: twin_crawler_def run_defs text_data_generator.simps)

lemma twin_crawl:
  "\<exists>pages c1. fst (crawl twin_site plain_storage plain_repr twin_crawler 0 (s3_empty []))
                  = Inr (pages, c1)"
  by (simp add: crawl_def twin_crawler_def run_defs text_data_generator.simps store_defs
        plain_storage_def plain_repr_def)

lemma visited_is_step:
  assumes "visited_is V s" and "loop_body e s = (r, s1)"
  shows "visited_is V s1"
  using assms(2)
proof (cases rule: loop_body_cases)
  case empty
  then show ?thesis using assms(1) by simp
next
  case (seen url rest)
  then show ?thesis using assms(1) by (simp add: visited_is_def)
next
  case (raised url rest x t)
  then show ?thesis using assms(1) by (simp add: visited_is_def fetch_failed_def)
next
  case (failed url rest h t)
  then show ?thesis using assms(1) by (simp add: visited_is_def fetch_failed_def)
next
  case (fetched url rest html t)
  have "visited_urls (self s1) = finsert url (visited_urls (self s))"
    using fetched page_fetched_self[of e "s\<lparr>to_visit := rest\<rparr>" url html t] by simp
  moreover have "fetch_log s1 = fetch_log s @ [(url, True)]"
    using fetched by (simp add: page_fetched_log)
  ultimately show ?thesis using assms(1) by (simp add: visited_is_def)
qed

lemma visited_is_run: "visited_is V s \<Longrightarrow> visited_is V (snd (text_data_generator e s))"
proof -
  assume "visited_is V s"
  then have "list_all (visited_is V) (crawl_states e s)"
    by (rule states_invariant[where I = "visited_is V" and e = e, rotated]) (rule visited_is_step)
  moreover have "crawl_states e s \<noteq> []"
    by (subst crawl_states.simps) (simp split: prod.splits option.splits)
  ultimately show ?thesis
    by (simp add: generator_last list_all_iff)
qed

lemma page_fetched_duplicate:
  "fst (parse e ((self s)\<lparr>visited_urls := finsert url (visited_urls (self s))\<rparr>) html) = None
   \<Longrightarrow> yielded (page_fetched e s url html t) = yielded s
       \<and> crawled_data (page_fetched e s url html t) = crawled_data s"
  by (simp add: page_fetched_eq Let_def)

lemma parse_duplicate:
  "fst (parse e c html) = None \<longleftrightarrow> fst (is_duplicate e (text_processor c) (extract_text e html))"
  by (simp add: parse_eq process_text_def split: prod.splits option.splits)



lemma page_fetched_of_duplicate:
  assumes "fst (is_duplicate e (text_processor (self s1)) (extract_text e html))"
  shows "yielded (page_fetched e s1 url html t1) = yielded s1
             \<and> crawled_data (page_fetched e s1 url html t1) = crawled_data s1"
proof -
  have "fst (parse e ((self s1)\<lparr>visited_urls := finsert url (visited_urls (self s1))\<rparr>) html) = None"
    using assms by (subst parse_duplicate) simp
  then show ?thesis by (rule page_fetched_duplicate)
qed

section \<open>The claims\<close>

subsection \<open>C2: the size of the dedup ledger\<close>

text \<open>
  Claim C2 asks that the set of seen fingerprints never exceeds \<^verbatim>\<open>max_hashes\<close> and that
  a call arriving at capacity evicts a member before it inserts.  The code does not do
  this: at capacity \<^verbatim>\<open>list(self.content_hashes)[-self.max_hashes:]\<close> keeps all
  \<^verbatim>\<open>max_hashes\<close> members, and the new fingerprint is then added.  Whenever \<^verbatim>\<open>list\<close> lists
  a set member by member, a fresh ledger that is given \<^verbatim>\<open>max_hashes + 1\<close> texts with
  pairwise different fingerprints ends with \<^verbatim>\<open>max_hashes + 1\<close> fingerprints.
\<close>

theorem dedup_ledger_exceeds_capacity:
  assumes "\<forall>S. lists_set e S"
      and "distinct (map (calculate_content_hash e) texts)"
      and "length texts = max_hashes tp + 1"
      and "content_hashes tp = {||}"
  shows "fcard (content_hashes (snd (check_all e tp texts))) = max_hashes tp + 1
         \<and> fcard (content_hashes (snd (check_all e tp texts))) > max_hashes tp"
proof -
  have "check_all e tp texts =
           (replicate (length texts) False,
            tp\<lparr>content_hashes := content_hashes tp |\<union>| fset_of_list (map (calculate_content_hash e) texts)\<rparr>)"
    using assms by (intro check_all_fresh) auto
  moreover have "fcard (fset_of_list (map (calculate_content_hash e) texts)) = length texts"
    using assms(2) by (metis distinct_card fcard.rep_eq fset_of_list.rep_eq length_map)
  ultimately show ?thesis using assms(3,4) by simp
qed

theorem dedup_ledger_exceeds_capacity_witness:
  "fcard (content_hashes (snd (check_all site \<lparr>content_hashes = {||}, max_hashes = 2\<rparr>
                                  [''a'', ''b'', ''c'']))) = 3"
  using dedup_ledger_exceeds_capacity
          [of site "[''a'', ''b'', ''c'']" "\<lparr>content_hashes = {||}, max_hashes = 2\<rparr>"]
        site_lists_set
  by simp

subsection \<open>C8: the same text twice\<close>

text \<open>
  Claim C8 asks that two successive duplicate checks of a text not seen before answer
  false and then true.  On a full ledger the code can answer false twice: the second
  call cuts the ledger, which now has \<^verbatim>\<open>max_hashes + 1\<close> members, down to the last
  \<^verbatim>\<open>max_hashes\<close> members of \<^verbatim>\<open>list(self.content_hashes)\<close>, and the member it drops is the
  first of that list, which may be the fingerprint just inserted.
\<close>

theorem dedup_second_call_misses_when_full:
  assumes enum: "\<forall>S. lists_set e S"
      and pos: "0 < max_hashes tp"
      and full: "max_hashes tp \<le> fcard (content_hashes tp)"
      and fresh: "calculate_content_hash e text |\<notin>| content_hashes tp"
      and first: "hd (set_to_list e (content_hashes (snd (is_duplicate e tp text))))
                    = calculate_content_hash e text"
  shows "fst (is_duplicate e tp text) = False
         \<and> fst (is_duplicate e (snd (is_duplicate e tp text)) text) = False"
proof -
  let ?h = "calculate_content_hash e text"
  let ?m = "max_hashes tp"
  let ?S' = "fset_of_list (last_items ?m (set_to_list e (content_hashes tp)))"
  let ?tp1 = "tp\<lparr>content_hashes := finsert ?h ?S'\<rparr>"
  have sub: "?S' |\<subseteq>| content_hashes tp" and card': "fcard ?S' = ?m"
    using lists_set_last_items_card[of e "content_hashes tp" ?m] enum pos full by auto
  have notin: "?h |\<notin>| ?S'" using sub fresh by auto
  have one: "is_duplicate e tp text = (False, ?tp1)"
    using full notin by (simp add: is_duplicate_def Let_def)
  have card1: "fcard (content_hashes ?tp1) = Suc ?m"
    using notin card' by (simp add: fcard_finsert_disjoint)
  have hd1: "hd (set_to_list e (content_hashes ?tp1)) = ?h"
    using first one by simp
  have "fset_of_list (last_items ?m (set_to_list e (content_hashes ?tp1)))
          = content_hashes ?tp1 |-| {|?h|}"
    using lists_set_hd_tl[of e "content_hashes ?tp1" ?m] enum card1 pos hd1 by simp
  then have gone: "?h |\<notin>| fset_of_list (last_items (max_hashes ?tp1) (set_to_list e (content_hashes ?tp1)))"
    by simp
  have "fst (is_duplicate e ?tp1 text) = False"
    using gone card1 by (simp add: is_duplicate_def Let_def)
  then show ?thesis using one by simp
qed

theorem dedup_second_call_misses_when_full_witness:
  "fst (is_duplicate site \<lparr>content_hashes = {|''b''|}, max_hashes = 1\<rparr> ''a'') = False
   \<and> fst (is_duplicate site
            (snd (is_duplicate site \<lparr>content_hashes = {|''b''|}, max_hashes = 1\<rparr> ''a'')) ''a'')
       = False"
proof -
  let ?tp = "\<lparr>content_hashes = {|''b''|}, max_hashes = 1\<rparr>"
  have one: "snd (is_duplicate site ?tp ''a'') = \<lparr>content_hashes = {|''a'', ''b''|}, max_hashes = 1\<rparr>"
    by (simp add: is_duplicate_def Let_def last_items_def sorted_list_of_fset.rep_eq)
  have first: "hd (set_to_list site (content_hashes (snd (is_duplicate site ?tp ''a''))))
                 = calculate_content_hash site ''a''"
    unfolding one by (simp add: sorted_list_of_fset.rep_eq)
  show ?thesis
    using dedup_second_call_misses_when_full[of site ?tp "''a''"] site_lists_set first
    by (simp add: fcard_finsert_if)
qed

subsection \<open>C5: the retry ceiling\<close>




subsection \<open>C7: the loop ends, and the visited set stays within the limit\<close>

text \<open>
  Claim C7.  For every world (every link graph, finite or not) and every page limit the
  crawl loop terminates, and at every step of the loop the visited set holds at most
  \<^verbatim>\<open>page_limit\<close> URLs.  Termination is the termination proof of \<open>text_data_generator\<close>
  and \<open>crawl_states\<close>: each iteration either adds a URL to the visited set, which the
  limit allows a bounded number of times, or shortens the queue.  The run may start
  from any state within the limit, as a new crawler's is; \<open>max 0\<close> covers a negative
  limit, under which the loop body never runs.  The run ends in the last of its states,
  and unless an exception ended it the loop condition is false there.
\<close>

theorem crawl_loop_ends_within_limit:
  assumes "int (fcard (visited_urls (self s))) \<le> max 0 (page_limit (self s))"
  shows "list_all (\<lambda>s1. int (fcard (visited_urls (self s1))) \<le> max 0 (page_limit (self s)))
           (crawl_states e s)
         \<and> snd (text_data_generator e s) = last (crawl_states e s)
         \<and> (fst (text_data_generator e s) = None
              \<longrightarrow> \<not> loop_cond (snd (text_data_generator e s)))"
proof -
  let ?L = "page_limit (self s)"
  let ?I = "\<lambda>s1. int (fcard (visited_urls (self s1))) \<le> max 0 ?L \<and> page_limit (self s1) = ?L"
  have "list_all ?I (crawl_states e s)"
  proof (rule states_invariant)
    show "?I s" using assms by simp
  next
    fix s0 r s1
    assume i: "?I s0" and c: "loop_cond s0" and b: "loop_body e s0 = (r, s1)"
    from c i have "int (fcard (visited_urls (self s0))) < ?L" by (simp add: loop_cond_def)
    with loop_body_limit[OF b] i show "?I s1" by simp
  qed
  then have "list_all (\<lambda>s1. int (fcard (visited_urls (self s1))) \<le> max 0 ?L) (crawl_states e s)"
    by (simp add: list_all_iff)
  then show ?thesis using generator_last generator_exit by blast
qed

theorem crawl_loop_ends_within_limit_witness:
  "page_limit limited_crawler = 2
   \<and> map (\<lambda>s1. fcard (visited_urls (self s1))) (crawl_states site (crawl_start limited_crawler 0))
       = [0, 1, 1, 2]
   \<and> list_all (\<lambda>s1. int (fcard (visited_urls (self s1))) \<le> 2)
        (crawl_states site (crawl_start limited_crawler 0))
   \<and> \<not> loop_cond (snd (text_data_generator site (crawl_start limited_crawler 0)))"
proof -
  have l: "page_limit limited_crawler = 2"
    by (simp add: limited_crawler_def Crawler_init_def get_default_def)
  have "int (fcard (visited_urls (self (crawl_start limited_crawler 0))))
          \<le> max 0 (page_limit (self (crawl_start limited_crawler 0)))"
    by (simp add: limited_crawler_def Crawler_init_def get_default_def fcard_fempty)
  note run = crawl_loop_ends_within_limit[OF this, of site]
  have a: "list_all (\<lambda>s1. int (fcard (visited_urls (self s1))) \<le> 2)
             (crawl_states site (crawl_start limited_crawler 0))"
    using run l by simp
  have b: "\<not> loop_cond (snd (text_data_generator site (crawl_start limited_crawler 0)))"
    using run limited_run(2) by blast
  show ?thesis using l limited_run(1) a b by blast
qed

subsection \<open>C1: no URL fetched twice; a failed fetch is a skip\<close>

text \<open>
  Claim C1 as stated (no URL is fetched twice; a URL whose fetch exhausts the retries
  is marked visited) fails on the code.  On the small site the page \<^verbatim>\<open>/b\<close> is requested
  twice, because it is linked from two pages and never enters the visited set.
\<close>

theorem no_url_fetched_twice_counterexample:
  "fst (text_data_generator site (crawl_start site_crawler 0)) = None
   \<and> \<not> distinct (map fst (fetch_log (snd (text_data_generator site (crawl_start site_crawler 0)))))
   \<and> ''http://s/b'' |\<notin>| visited_urls (self (snd (text_data_generator site (crawl_start site_crawler 0))))"
  by (simp add: site_run)

text \<open>
  Claim C1, amended.  When fetching the URL at the head of the queue exhausts the
  retries, the iteration ends normally: the URL leaves the queue and is not put back,
  the visited set is unchanged (the URL is not marked visited), the failure is logged,
  and the loop continues.  In every crawl run, no URL is fetched again once a fetch of
  it has given a page.
\<close>

theorem exhausted_fetch_is_skipped:
  assumes "to_visit s = url # rest"
      and "url |\<notin>| visited_urls (self s)"
      and "get_page e (self s) url (clock s) = (Inr None, t1)"
  shows "loop_body e s
           = (None, s\<lparr>to_visit := rest, clock := t1, fetch_log := fetch_log s @ [(url, False)]\<rparr>)
         \<and> no_refetch (fetch_log (snd (text_data_generator e (crawl_start c t))))"
proof -
  have "loop_body e s
           = (None, s\<lparr>to_visit := rest, clock := t1, fetch_log := fetch_log s @ [(url, False)]\<rparr>)"
    using assms by (simp add: loop_body_def Let_def fetch_failed_def)
  moreover have "log_ok (crawl_start c t)" by (simp add: log_ok_def crawl_start_def)
  then have "log_ok (snd (text_data_generator e (crawl_start c t)))" by (rule log_ok_run)
  ultimately show ?thesis by (simp add: log_ok_def)
qed

theorem exhausted_fetch_is_skipped_witness:
  "loop_body site ((crawl_start site_crawler 0)\<lparr>to_visit := [''http://s/b'']\<rparr>)
     = (None, (crawl_start site_crawler 0)
                \<lparr>to_visit := [], clock := 1, fetch_log := [(''http://s/b'', False)]\<rparr>)
   \<and> no_refetch (fetch_log (snd (text_data_generator site (crawl_start site_crawler 0))))"
proof -
  let ?s = "(crawl_start site_crawler 0)\<lparr>to_visit := [''http://s/b'']\<rparr>"
  have g: "get_page site (self ?s) ''http://s/b'' (clock ?s) = (Inr None, 1)"
    by (simp add: site_crawler_def run_defs)
  have v: "''http://s/b'' |\<notin>| visited_urls (self ?s)"
    by (simp add: site_crawler_def run_defs)
  have q: "to_visit ?s = ''http://s/b'' # []" by simp
  from exhausted_fetch_is_skipped[OF q v g, of site_crawler 0] show ?thesis
    by (simp add: crawl_start_def)
qed

subsection \<open>C9: which links enter the queue\<close>




subsection \<open>C10: the persisted summary\<close>

text \<open>
  Claim C10.  Let \<open>g\<close> be the state in which the generator of a crawl run ends, and
  \<open>sm\<close> the summary that post-crawl processing builds from it.  Its \<^verbatim>\<open>total_pages\<close> and
  \<^verbatim>\<open>successful_crawls\<close> are both the final size of the visited set and its
  \<^verbatim>\<open>failed_crawls\<close> is 0.  The visited set at the end is the visited set at the start
  together with every URL whose fetch gave a page during the run: a fetch that failed
  adds nothing, however many there were, and a page that turns out to be a duplicate
  counts like any other, since its URL enters the visited set before the page is
  parsed, although it yields no record and no page data.  Post-crawl processing,
  whenever it is reached, first sends the store this summary under the summary key;
  and when the crawl returns, the object under that key is this summary.  The crawler's
  counter of failed crawls is 0 from its construction, and nothing in a run writes it.
\<close>

theorem summary_counts_visited:
  assumes "failed_crawls (metrics c) = 0"
      and "g = snd (text_data_generator e (crawl_start c t))"
      and "sm = make_summary (update_metrics e (self g) (clock g))"
  shows "sm_total_pages sm = fcard (visited_urls (self g))
         \<and> sm_successful_crawls sm = fcard (visited_urls (self g))
         \<and> sm_failed_crawls sm = 0
         \<and> visited_urls (self g)
             = visited_urls c |\<union>| fset_of_list (map fst (filter snd (fetch_log g)))
         \<and> visited_urls (self (page_fetched e s1 url html t1))
             = finsert url (visited_urls (self s1))
         \<and> (fst (is_duplicate e (text_processor (self s1)) (extract_text e html)) \<longrightarrow>
               yielded (page_fetched e s1 url html t1) = yielded s1
               \<and> crawled_data (page_fetched e s1 url html t1) = crawled_data s1)
         \<and> (\<exists>later. requests (snd (snd (post_crawl_processing e st f (self g) (clock g) sa)))
                = requests sa @ PutObject (summary_key st c)
                                  (gzip_compress st (json_dumps (summary_repr f) sm)) # later)
         \<and> (fst (crawl e st f c t s) = Inr (pages, c1) \<longrightarrow>
               visited_urls c1 = visited_urls (self g)
               \<and> objects (snd (crawl e st f c t s)) (summary_key st c)
                   = Some (gzip_compress st (json_dumps (summary_repr f) sm)))"
proof -
  have keep: "metrics (self g) = metrics c" "name (self g) = name c"
    using generator_keeps[of e "crawl_start c t"] assms(2) by simp_all
  have k: "summary_key st (self g) = summary_key st c" using keep by (simp add: summary_key_def)
  have fields: "sm_total_pages sm = fcard (visited_urls (self g))"
      "sm_successful_crawls sm = fcard (visited_urls (self g))" "sm_failed_crawls sm = 0"
    using keep assms(1,3) by (simp_all add: make_summary_def update_metrics_def)
  have "visited_is (visited_urls c) (crawl_start c t)" by (simp add: visited_is_def)
  then have "visited_is (visited_urls c) g" unfolding assms(2) by (rule visited_is_run)
  then have counted: "visited_urls (self g)
             = visited_urls c |\<union>| fset_of_list (map fst (filter snd (fetch_log g)))"
    by (simp add: visited_is_def)
  have enters: "visited_urls (self (page_fetched e s1 url html t1))
                  = finsert url (visited_urls (self s1))"
    using page_fetched_self[of e s1 url html t1] by simp
  have dup: "yielded (page_fetched e s1 url html t1) = yielded s1
             \<and> crawled_data (page_fetched e s1 url html t1) = crawled_data s1"
    if "fst (is_duplicate e (text_processor (self s1)) (extract_text e html))"
    using that by (rule page_fetched_of_duplicate)
  have sent: "\<exists>later. requests (snd (snd (post_crawl_processing e st f (self g) (clock g) sa)))
                = requests sa @ PutObject (summary_key st c)
                                  (gzip_compress st (json_dumps (summary_repr f) sm)) # later"
    using post_crawl_requests[of e st f "self g" "clock g" sa] k assms(3) by simp
  have stored: "visited_urls c1 = visited_urls (self g)
           \<and> objects (snd (crawl e st f c t s)) (summary_key st c)
                   = Some (gzip_compress st (json_dumps (summary_repr f) sm))"
    if ok: "fst (crawl e st f c t s) = Inr (pages, c1)"
  proof -
    obtain ending where g: "text_data_generator e (crawl_start c t) = (ending, g)"
      using assms(2) by (cases "text_data_generator e (crawl_start c t)") simp
    let ?stream = "stream_processed_text_data st (text_repr f) (name c) (yielded g) ending None s"
    obtain r1 sb where a: "?stream = (r1, sb)" by (cases ?stream)
    from ok g a obtain key where r1: "r1 = Inr key"
      by (cases r1) (simp_all add: crawl_def)
    obtain x c2 sc where p: "post_crawl_processing e st f (self g) (clock g) sb = (x, c2, sc)"
      by (cases "post_crawl_processing e st f (self g) (clock g) sb") auto
    from ok g a r1 p have x: "x = None" and c2: "c2 = c1"
      by (cases x; simp add: crawl_def)+
    from g a r1 p x have sc: "snd (crawl e st f c t s) = sc" by (simp add: crawl_def)
    from post_crawl_summary[of e st f "self g" "clock g" sb c2 sc] p x
    have u: "c2 = update_metrics e (self g) (clock g)"
      and o: "objects sc (summary_key st (self g))
                = Some (gzip_compress st (json_dumps (summary_repr f) (make_summary c2)))"
      by simp_all
    have "visited_urls c1 = visited_urls (self g)"
      using u c2 by (simp add: update_metrics_def)
    moreover have "objects (snd (crawl e st f c t s)) (summary_key st c)
                   = Some (gzip_compress st (json_dumps (summary_repr f) sm))"
      using o sc u k assms(3) by simp
    ultimately show ?thesis by simp
  qed
  from fields(1) fields(2) fields(3) counted enters show ?thesis
  proof (intro conjI)
    show "fst (is_duplicate e (text_processor (self s1)) (extract_text e html)) \<longrightarrow>
               yielded (page_fetched e s1 url html t1) = yielded s1
               \<and> crawled_data (page_fetched e s1 url html t1) = crawled_data s1"
      using dup by blast
    show "\<exists>later. requests (snd (snd (post_crawl_processing e st f (self g) (clock g) sa)))
                = requests sa @ PutObject (summary_key st c)
                                  (gzip_compress st (json_dumps (summary_repr f) sm)) # later"
      by (rule sent)
    show "fst (crawl e st f c t s) = Inr (pages, c1) \<longrightarrow>
               visited_urls c1 = visited_urls (self g)
               \<and> objects (snd (crawl e st f c t s)) (summary_key st c)
                   = Some (gzip_compress st (json_dumps (summary_repr f) sm))"
      using stored by blast
  qed
qed

theorem summary_counts_visited_witness:
  "\<exists>pages c1. fst (crawl twin_site plain_storage plain_repr twin_crawler 0 (s3_empty []))
                  = Inr (pages, c1)
      \<and> visited_urls c1 = {|''http://s/m'', ''http://s''|}
      \<and> fetch_log (snd (text_data_generator twin_site (crawl_start twin_crawler 0)))
           = [(''http://s'', True), (''http://s/m'', True), (''http://s/b'', False)]
      \<and> map td_url (yielded (snd (text_data_generator twin_site (crawl_start twin_crawler 0))))
           = [''http://s'']
      \<and> objects (snd (crawl twin_site plain_storage plain_repr twin_crawler 0 (s3_empty [])))
             (summary_key plain_storage twin_crawler) = Some ''ppss''"
proof -
  let ?g = "snd (text_data_generator twin_site (crawl_start twin_crawler 0))"
  let ?sm = "make_summary (update_metrics twin_site (self ?g) (clock ?g))"
  from twin_crawl obtain pages c1 where
    r: "fst (crawl twin_site plain_storage plain_repr twin_crawler 0 (s3_empty []))
          = Inr (pages, c1)"
    by blast
  have z: "failed_crawls (metrics twin_crawler) = 0"
    by (simp add: twin_crawler_def Crawler_init_def)
  note th = summary_counts_visited[where c = twin_crawler and e = twin_site and t = 0
              and st = plain_storage and f = plain_repr and s = "s3_empty []"
              and pages = pages and ?c1.0 = c1 and ?s1.0 = "crawl_start twin_crawler 0"
              and url = "[]" and html = "[]" and ?t1.0 = 0 and sa = "s3_empty []",
              OF z refl refl]
  note total = th[THEN conjunct1]
  note good = th[THEN conjunct2, THEN conjunct1]
  note bad = th[THEN conjunct2, THEN conjunct2, THEN conjunct1]
  note stored = th[THEN conjunct2, THEN conjunct2, THEN conjunct2, THEN conjunct2,
                   THEN conjunct2, THEN conjunct2, THEN conjunct2, rule_format, OF r]
  have vg: "visited_urls (self ?g) = {|''http://s/m'', ''http://s''|}" by (rule twin_run(2))
  have v: "visited_urls c1 = {|''http://s/m'', ''http://s''|}"
    using stored[THEN conjunct1] vg by simp
  have "sm_total_pages ?sm = 2" "sm_successful_crawls ?sm = 2" "sm_failed_crawls ?sm = 0"
    using total good bad vg by (simp_all add: fcard_finsert_if fcard_fempty)
  then have "json_dumps (summary_repr plain_repr) ?sm = ''ppss''"
    by (simp add: plain_repr_def numeral_2_eq_2)
  then have obj: "objects (snd (crawl twin_site plain_storage plain_repr twin_crawler 0 (s3_empty [])))
               (summary_key plain_storage twin_crawler) = Some ''ppss''"
    using stored[THEN conjunct2] by (simp add: plain_storage_def)
  have "fst (crawl twin_site plain_storage plain_repr twin_crawler 0 (s3_empty []))
                  = Inr (pages, c1)
      \<and> visited_urls c1 = {|''http://s/m'', ''http://s''|}
      \<and> fetch_log (snd (text_data_generator twin_site (crawl_start twin_crawler 0)))
           = [(''http://s'', True), (''http://s/m'', True), (''http://s/b'', False)]
      \<and> map td_url (yielded (snd (text_data_generator twin_site (crawl_start twin_crawler 0))))
           = [''http://s'']
      \<and> objects (snd (crawl twin_site plain_storage plain_repr twin_crawler 0 (s3_empty [])))
             (summary_key plain_storage twin_crawler) = Some ''ppss''"
    by (intro conjI r v twin_run(1) twin_run(3) obj)
  then show ?thesis by (intro exI)
qed

subsection \<open>C3: an error during a streaming upload\<close>

text \<open>
  Claim C3 asks that an error of a part upload or of the completion aborts the
  multipart session before it is re-raised.  The code re-raises but never aborts: the
  guard of the abort, \<^verbatim>\<open>'UploadId' in locals()\<close>, asks for a local variable named
  \<^verbatim>\<open>UploadId\<close>, and neither function has one (the identifier is kept in \<^verbatim>\<open>mpu\<close>), so the
  handler leaves the store as it is.  In the two runs below the first part upload
  fails; the call raises \<^verbatim>\<open>ClientError\<close>, no abort request reaches the store, and the
  session stays open.  No object exists under the key, since the upload was never
  completed.
\<close>

theorem stream_error_leaves_session_open:
  "reraise stream_processed_text_data_locals key mpu x s = (Inl x, s)
   \<and> reraise stream_raw_data_locals key mpu x s = (Inl x, s)
   \<and> stream_processed_text_data plain_storage (text_repr plain_repr) ''s'' [one_record] None None
        (s3_empty [False, True])
       = (Inl ClientError,
          \<lparr>objects = (\<lambda>k. None),
           uploads = (\<lambda>u. None)(0 \<mapsto> (text_key plain_storage ''s'' None, [])),
           next_upload_id = 1, faults = [],
           requests = [CreateMultipartUpload (text_key plain_storage ''s'' None),
                       UploadPart (text_key plain_storage ''s'' None) 1 0 ''[http://s]'']\<rparr>)
   \<and> fst (stream_raw_data plain_storage big_repr ''s'' [5242880] None None (s3_empty [False, True]))
       = Inl ClientError
   \<and> uploads (snd (stream_raw_data plain_storage big_repr ''s'' [5242880] None None
                     (s3_empty [False, True]))) 0
       = Some (raw_key plain_storage ''s'' None, [])
   \<and> list_all (\<lambda>r. case r of AbortMultipartUpload k u \<Rightarrow> False | _ \<Rightarrow> True)
        (requests (snd (stream_raw_data plain_storage big_repr ''s'' [5242880] None None
                     (s3_empty [False, True]))))"
proof -
  have a: "reraise stream_processed_text_data_locals key mpu x s = (Inl x, s)"
    and b: "reraise stream_raw_data_locals key mpu x s = (Inl x, s)"
    by (rule handler_dead)+
  have c: "stream_processed_text_data plain_storage (text_repr plain_repr) ''s'' [one_record]
             None None (s3_empty [False, True])
           = (Inl ClientError,
              \<lparr>objects = (\<lambda>k. None),
               uploads = (\<lambda>u. None)(0 \<mapsto> (text_key plain_storage ''s'' None, [])),
               next_upload_id = 1, faults = [],
               requests = [CreateMultipartUpload (text_key plain_storage ''s'' None),
                           UploadPart (text_key plain_storage ''s'' None) 1 0 ''[http://s]'']\<rparr>)"
    by (simp add: store_defs text_key_def plain_storage_def plain_repr_def one_record_def
          stream_processed_text_data_locals_def Let_def)
  have d: "fst (stream_raw_data plain_storage big_repr ''s'' [5242880] None None
                 (s3_empty [False, True])) = Inl ClientError"
    and e: "uploads (snd (stream_raw_data plain_storage big_repr ''s'' [5242880] None None
                 (s3_empty [False, True]))) 0 = Some (raw_key plain_storage ''s'' None, [])"
    and f: "list_all (\<lambda>r. case r of AbortMultipartUpload k u \<Rightarrow> False | _ \<Rightarrow> True)
             (requests (snd (stream_raw_data plain_storage big_repr ''s'' [5242880] None None
                 (s3_empty [False, True]))))"
    by (simp_all add: stream_raw_data_def store_defs raw_key_def plain_storage_def big_repr_def
          stream_raw_data_locals_def chunks.simps Let_def)
  from a b c d e f show ?thesis by blast
qed

subsection \<open>C4: streaming against one whole-object write\<close>

text \<open>
  Claim C4 asks that streaming N records and writing them with one whole-object write
  give the same decompressed content.  The code does this only while all records fit
  one part.  Each part is the gzip of a JSON array of its own, so an object of two
  parts decompresses to two arrays one after the other, not to one array: for a first
  record whose \<^verbatim>\<open>str\<close> has at least 5 MiB of characters and a second, smaller one, the
  streamed object reads \<^verbatim>\<open>[r1][r2]\<close> and the whole-object write reads \<^verbatim>\<open>[r1, r2]\<close>.
  The third hypothesis is gzip's reading of concatenated members.
\<close>

theorem streamed_parts_are_separate_documents:
  assumes "max_buffer_size \<le> length (str_of f r1)"
      and "length (str_of f r2) < max_buffer_size"
      and "\<forall>docs. gzip_decompress st (concat (map (gzip_compress st) docs)) = concat docs"
  shows "decompressed_content st
           (snd (stream_processed_text_data st f source [r1, r2] None filename (s3_empty [])))
           (text_key st source filename)
           = Some (''['' @ json_dumps f r1 @ '']['' @ json_dumps f r2 @ '']'')
         \<and> decompressed_content st
             (snd (store_processed_text_data st (list_repr f) source [r1, r2] filename (s3_empty [])))
             (text_key st source filename)
           = Some (''['' @ json_dumps f r1 @ '', '' @ json_dumps f r2 @ '']'')
         \<and> ''['' @ json_dumps f r1 @ '']['' @ json_dumps f r2 @ '']''
             \<noteq> ''['' @ json_dumps f r1 @ '', '' @ json_dumps f r2 @ '']''"
proof -
  let ?j1 = "''['' @ json_dumps f r1 @ '']''"
  let ?j2 = "''['' @ json_dumps f r2 @ '']''"
  let ?j = "''['' @ json_dumps f r1 @ '', '' @ json_dumps f r2 @ '']''"
  let ?key = "text_key st source filename"
  have two: "gzip_decompress st (gzip_compress st ?j1 @ gzip_compress st ?j2) = ?j1 @ ?j2"
    using assms(3)[rule_format, of "[?j1, ?j2]"] by simp
  have one: "gzip_decompress st (gzip_compress st ?j) = ?j"
    using assms(3)[rule_format, of "[?j]"] by simp
  have "objects (snd (stream_processed_text_data st f source [r1, r2] None filename (s3_empty [])))
          ?key = Some (gzip_compress st ?j1 @ gzip_compress st ?j2)"
    using assms(1,2)
    by (simp add: stream_processed_text_data_def create_multipart_upload_def receive_def
          s3_empty_def upload_rest_def upload_part_def complete_multipart_upload_def
          parts_acceptable_def json_dumps_list_def text_key_def Let_def)
  then have a: "decompressed_content st
           (snd (stream_processed_text_data st f source [r1, r2] None filename (s3_empty [])))
           ?key = Some (?j1 @ ?j2)"
    using two by (simp add: decompressed_content_def)
  have "objects (snd (store_processed_text_data st (list_repr f) source [r1, r2] filename
                        (s3_empty []))) ?key = Some (gzip_compress st ?j)"
    by (simp add: store_processed_text_data_def put_object_def receive_def s3_empty_def
          list_repr_def json_dumps_list_def text_key_def Let_def)
  then have b: "decompressed_content st
           (snd (store_processed_text_data st (list_repr f) source [r1, r2] filename (s3_empty [])))
           ?key = Some ?j"
    using one by (simp add: decompressed_content_def)
  have c: "''['' @ json_dumps f r1 @ '']['' @ json_dumps f r2 @ '']'' \<noteq> ?j" by simp
  from a b c show ?thesis by simp
qed

theorem streamed_parts_are_separate_documents_witness:
  "decompressed_content plain_storage
     (snd (stream_processed_text_data plain_storage big_repr ''s'' [5242880, 1] None None
             (s3_empty [])))
     (text_key plain_storage ''s'' None)
     = Some (''['' @ replicate 5242880 CHR ''x'' @ ''][x]'')
   \<and> decompressed_content plain_storage
       (snd (store_processed_text_data plain_storage (list_repr big_repr) ''s'' [5242880, 1] None
               (s3_empty [])))
       (text_key plain_storage ''s'' None)
     = Some (''['' @ replicate 5242880 CHR ''x'' @ '', x]'')"
proof -
  have 1: "max_buffer_size \<le> length (str_of big_repr 5242880)"
    by (simp add: big_repr_def max_buffer_size_def)
  have 2: "length (str_of big_repr 1) < max_buffer_size"
    by (simp add: big_repr_def max_buffer_size_def)
  have 3: "\<forall>docs. gzip_decompress plain_storage (concat (map (gzip_compress plain_storage) docs))
                  = concat docs"
    by (simp add: plain_storage_def)
  from streamed_parts_are_separate_documents[OF 1 2 3, of "''s''" None]
  show ?thesis by (simp add: big_repr_def)
qed

subsection \<open>C6: a stream without records\<close>

text \<open>
  Claim C6 asks that a streaming call whose stream yields no record finishes as a no-op.
  \<^verbatim>\<open>stream_raw_data\<close> does: it returns the key and sends the store nothing.
  \<^verbatim>\<open>stream_processed_text_data\<close> does not: it has opened a multipart session before it
  reads the stream, and it ends by asking the store to complete the session with an
  empty list of parts; the store refuses, the call raises \<^verbatim>\<open>ClientError\<close>, and the
  session stays open.
\<close>

theorem empty_stream_is_not_a_no_op:
  "stream_raw_data st f source [] None filename s = (Inr (raw_key st source filename), s)
   \<and> fst (stream_processed_text_data st f source [] None filename (s3_empty [])) = Inl ClientError
   \<and> requests (snd (stream_processed_text_data st f source [] None filename (s3_empty [])))
       = [CreateMultipartUpload (text_key st source filename),
          CompleteMultipartUpload (text_key st source filename) 0 []]
   \<and> uploads (snd (stream_processed_text_data st f source [] None filename (s3_empty []))) 0
       = Some (text_key st source filename, [])"
  by (simp add: stream_raw_data_def raw_key_def store_defs text_key_def
        stream_processed_text_data_locals_def Let_def)

end
